theory Spec2Isabelle
  imports Complex_Main "HOL-Library.Word" "HOL-Library.Sublist"
begin

section \<open>Face verification demo: data model\<close>

text \<open>
  The repository glues OpenCV, NumPy and a Keras model together. The embedding below
  follows the Python functions of \<^verbatim>\<open>utils.py\<close>, \<^verbatim>\<open>app.py\<close>, \<^verbatim>\<open>camera_utils.py\<close> and
  \<^verbatim>\<open>trt_inference.py\<close> line by line. Library calls are parameters of the model.
  Numbers that Python holds as floats are modelled as reals extended by the two
  infinities; rounding and NaN are not modelled.
\<close>

datatype py_error =
    ValueError
  | CvError
  | RuntimeError
  | FileNotFoundError
  | UnboundLocalError
  | OSError
  | PyException string
  | SystemExit int

datatype pyfloat = NegInf | Fin real | PosInf

fun float_less :: "pyfloat \<Rightarrow> pyfloat \<Rightarrow> bool" where
  "float_less NegInf NegInf = False"
| "float_less NegInf (Fin b) = True"
| "float_less NegInf PosInf = True"
| "float_less (Fin a) NegInf = False"
| "float_less (Fin a) (Fin b) = (a < b)"
| "float_less (Fin a) PosInf = True"
| "float_less PosInf b = False"

type_synonym embedding = "real list"

type_synonym gallery = "(string \<times> embedding) list"

subsection \<open>NumPy arithmetic on one-dimensional arrays\<close>

text \<open>
  \<^verbatim>\<open>embedding1 - embedding2\<close>: element-wise on equal shapes, an array of length one is
  broadcast against the other, any other pair of shapes raises ValueError.
\<close>

definition np_subtract :: "embedding \<Rightarrow> embedding \<Rightarrow> py_error + embedding" where
  "np_subtract a b =
     (if length a = length b then Inr (map (\<lambda>(x, y). x - y) (zip a b))
      else if length b = 1 then Inr (map (\<lambda>x. x - hd b) a)
      else if length a = 1 then Inr (map (\<lambda>y. hd a - y) b)
      else Inl ValueError)"

definition np_linalg_norm :: "embedding \<Rightarrow> real" where
  "np_linalg_norm v = sqrt (sum_list (map (\<lambda>x. x * x) v))"

definition euclidean_distance :: "embedding \<Rightarrow> embedding \<Rightarrow> py_error + real" where
  "euclidean_distance embedding1 embedding2 =
     (case np_subtract embedding1 embedding2 of
        Inl e \<Rightarrow> Inl e
      | Inr d \<Rightarrow> Inr (np_linalg_norm d))"

subsection \<open>Nearest-neighbour identification\<close>

text \<open>
  The \<^verbatim>\<open>for person_id, ref_embedding in gallery_embeddings.items()\<close> loop of
  \<^verbatim>\<open>identify_face\<close>, threading \<^verbatim>\<open>(min_distance, identified_person)\<close>.
\<close>

fun identify_scan ::
  "embedding \<Rightarrow> gallery \<Rightarrow> pyfloat \<times> string \<Rightarrow> py_error + (pyfloat \<times> string)" where
  "identify_scan q [] st = Inr st"
| "identify_scan q ((person_id, ref_embedding) # rest) (min_distance, identified_person) =
     (case euclidean_distance q ref_embedding of
        Inl e \<Rightarrow> Inl e
      | Inr distance \<Rightarrow>
          if float_less (Fin distance) min_distance
          then identify_scan q rest (Fin distance, person_id)
          else identify_scan q rest (min_distance, identified_person))"

definition identify_face ::
  "embedding \<Rightarrow> gallery \<Rightarrow> pyfloat \<Rightarrow> py_error + (string \<times> pyfloat \<times> string)" where
  "identify_face query_embedding gallery_embeddings threshold =
     (case identify_scan query_embedding gallery_embeddings (PosInf, ''UNKNOWN'') of
        Inl e \<Rightarrow> Inl e
      | Inr (min_distance, identified_person) \<Rightarrow>
          (let status = (if float_less min_distance threshold then ''MATCH'' else ''REJECT'');
               identified_person' = (if status = ''REJECT'' then ''UNKNOWN'' else identified_person)
           in Inr (identified_person', min_distance, status)))"

text \<open>The textbook Euclidean distance between two vectors of the same dimension.\<close>

definition l2_distance :: "embedding \<Rightarrow> embedding \<Rightarrow> real" where
  "l2_distance u v = sqrt (\<Sum>i<length u. (u ! i - v ! i)\<^sup>2)"

subsection \<open>Images and the OpenCV calls\<close>

text \<open>
  A frame is a NumPy array of shape height x width x channels holding unsigned bytes, as
  \<^verbatim>\<open>cv2.imread\<close> and \<^verbatim>\<open>VideoCapture.read\<close> deliver it. The OpenCV functions are fields
  of a record passed to every function that calls them. \<^verbatim>\<open>load_image\<close> wraps its calls
  in \<^verbatim>\<open>try/except\<close>, so \<^verbatim>\<open>imread\<close>, \<^verbatim>\<open>cvtColor\<close> and \<^verbatim>\<open>resize\<close> return either an
  error or a value; so does \<^verbatim>\<open>detectMultiScale\<close>, which raises on a cascade that failed
  to load. A rectangle is a row \<^verbatim>\<open>(x, y, w, h)\<close> of the detector's int32 array: its
  components are 32-bit words read as signed integers, and their sums and products wrap.
\<close>

type_synonym uint8 = "8 word"

type_synonym 'a ndarray3 = "'a list list list"

type_synonym int32 = "32 word"

type_synonym rect = "int32 \<times> int32 \<times> int32 \<times> int32"

datatype color_code = COLOR_BGR2RGB | COLOR_BGR2GRAY

record cv2 =
  cv_imread :: "string \<Rightarrow> py_error + uint8 ndarray3 option"
  cv_cvtColor :: "uint8 ndarray3 \<Rightarrow> color_code \<Rightarrow> py_error + uint8 ndarray3"
  cv_resize :: "uint8 ndarray3 \<Rightarrow> int \<times> int \<Rightarrow> py_error + uint8 ndarray3"
  cv_data_haarcascades :: string
  cv_detectMultiScale :: "string \<Rightarrow> uint8 ndarray3 \<Rightarrow> py_error + rect list"

text \<open>\<^verbatim>\<open>img_resized.astype('float32') / 255.0\<close>\<close>

definition normalize255 :: "uint8 ndarray3 \<Rightarrow> real ndarray3" where
  "normalize255 img = map (map (map (\<lambda>p. real (unat p) / 255))) img"

definition preprocess_image ::
  "cv2 \<Rightarrow> uint8 ndarray3 option \<Rightarrow> int \<Rightarrow> py_error + real ndarray3 option" where
  "preprocess_image cv img img_size =
     (case img of
        None \<Rightarrow> Inr None
      | Some i \<Rightarrow>
          (case cv_resize cv i (img_size, img_size) of
             Inl e \<Rightarrow> Inl e
           | Inr img_resized \<Rightarrow> Inr (Some (normalize255 img_resized))))"

definition load_image :: "cv2 \<Rightarrow> string \<Rightarrow> int \<Rightarrow> real ndarray3 option" where
  "load_image cv img_path img_size =
     (case cv_imread cv img_path of
        Inl e \<Rightarrow> None
      | Inr None \<Rightarrow> None
      | Inr (Some img) \<Rightarrow>
          (case cv_cvtColor cv img COLOR_BGR2RGB of
             Inl e \<Rightarrow> None
           | Inr rgb \<Rightarrow>
               (case preprocess_image cv (Some rgb) img_size of
                  Inl e \<Rightarrow> None
                | Inr r \<Rightarrow> r)))"

subsection \<open>Face detection\<close>

text \<open>
  Python's \<^verbatim>\<open>xs[lo:hi]\<close>: a negative bound counts from the end, and both bounds are
  clamped to the length.
\<close>

definition py_slice :: "int \<Rightarrow> int \<Rightarrow> 'a list \<Rightarrow> 'a list" where
  "py_slice lo hi xs =
     (let n = int (length xs);
          l = max 0 (min n (if lo < 0 then lo + n else lo));
          h = max 0 (min n (if hi < 0 then hi + n else hi))
      in take (nat (h - l)) (drop (nat l) xs))"

text \<open>\<^verbatim>\<open>max(items, key=...)\<close> on a non-empty sequence: the first item with the largest key.\<close>

fun py_max_key :: "('a \<Rightarrow> int) \<Rightarrow> 'a \<Rightarrow> 'a list \<Rightarrow> 'a" where
  "py_max_key key best [] = best"
| "py_max_key key best (x # xs) =
     (if key best < key x then py_max_key key x xs else py_max_key key best xs)"

text \<open>\<^verbatim>\<open>lambda rect: rect[2] * rect[3]\<close>, a product of two int32 scalars.\<close>

definition rect_area :: "rect \<Rightarrow> int" where
  "rect_area r = (case r of (x, y, w, h) \<Rightarrow> sint (w * h))"

text \<open>
  \<^verbatim>\<open>if face_cascade_path is None: face_cascade_path = cv2.data.haarcascades + '...'\<close>
\<close>

definition cascade_path :: "cv2 \<Rightarrow> string option \<Rightarrow> string" where
  "cascade_path cv face_cascade_path =
     (case face_cascade_path of
        None \<Rightarrow> cv_data_haarcascades cv @ ''haarcascade_frontalface_default.xml''
      | Some p \<Rightarrow> p)"

text \<open>\<^verbatim>\<open>frame[y:y+h, x:x+w]\<close>\<close>

definition crop_frame :: "'a ndarray3 \<Rightarrow> rect \<Rightarrow> 'a ndarray3" where
  "crop_frame frame r =
     (case r of (x, y, w, h) \<Rightarrow>
        map (py_slice (sint x) (sint (x + w))) (py_slice (sint y) (sint (y + h)) frame))"

definition detect_and_crop_face ::
  "cv2 \<Rightarrow> uint8 ndarray3 \<Rightarrow> string option \<Rightarrow> py_error + (uint8 ndarray3 option \<times> rect option)" where
  "detect_and_crop_face cv frame face_cascade_path =
     (case cv_cvtColor cv frame COLOR_BGR2GRAY of
        Inl e \<Rightarrow> Inl e
      | Inr gray \<Rightarrow>
          (case cv_detectMultiScale cv (cascade_path cv face_cascade_path) gray of
             Inl e \<Rightarrow> Inl e
           | Inr [] \<Rightarrow> Inr (None, None)
           | Inr (f # fs) \<Rightarrow>
               (let bbox = py_max_key rect_area f fs;
                    face_img = crop_frame frame bbox
                in case cv_cvtColor cv face_img COLOR_BGR2RGB of
                     Inl e \<Rightarrow> Inl e
                   | Inr face_rgb \<Rightarrow> Inr (Some face_rgb, Some bbox))))"

text \<open>
  A detection lies inside the frame: its corner and size are non-negative, its rows and
  columns are rows and columns of the frame, and its area fits a signed 32-bit integer.
\<close>

definition rect_in_frame :: "'a ndarray3 \<Rightarrow> rect \<Rightarrow> bool" where
  "rect_in_frame frame r =
     (case r of (x, y, w, h) \<Rightarrow>
        0 \<le> sint x \<and> 0 \<le> sint y \<and> 0 \<le> sint w \<and> 0 \<le> sint h
        \<and> sint y + sint h \<le> int (length frame)
        \<and> list_all (\<lambda>row. sint x + sint w \<le> int (length row)) frame
        \<and> sint x + sint w < 2 ^ 31 \<and> sint y + sint h < 2 ^ 31
        \<and> sint w * sint h < 2 ^ 31)"

text \<open>
  \<open>face\<close> holds exactly the pixels of \<open>frame\<close> in rows \<open>y, ..., y + h - 1\<close> and columns
  \<open>x, ..., x + w - 1\<close>.
\<close>

definition is_crop_of :: "'a ndarray3 \<Rightarrow> 'a ndarray3 \<Rightarrow> rect \<Rightarrow> bool" where
  "is_crop_of face frame r =
     (case r of (x, y, w, h) \<Rightarrow>
        length face = nat (sint h)
        \<and> list_all (\<lambda>i. length (face ! i) = nat (sint w)
                    \<and> list_all (\<lambda>j. face ! i ! j = frame ! (nat (sint y) + i) ! (nat (sint x) + j))
                         [0..<nat (sint w)])
             [0..<nat (sint h)])"

subsection \<open>Identification from a cropped face\<close>

text \<open>
  The embedding network maps a preprocessed image to an embedding, or raises on an input
  it does not accept: \<^verbatim>\<open>model.predict(np.expand_dims(img, axis=0), verbose=0)[0]\<close>.
\<close>

type_synonym model = "real ndarray3 \<Rightarrow> py_error + embedding"

definition identify_face_from_frame ::
  "cv2 \<Rightarrow> uint8 ndarray3 option \<Rightarrow> model \<Rightarrow> gallery \<Rightarrow> pyfloat \<Rightarrow> int
     \<Rightarrow> py_error + (string \<times> pyfloat \<times> string)" where
  "identify_face_from_frame cv face_img model gallery_embeddings threshold img_size =
     (case preprocess_image cv face_img img_size of
        Inl e \<Rightarrow> Inl e
      | Inr None \<Rightarrow> Inr (''UNKNOWN'', PosInf, ''REJECT'')
      | Inr (Some face_processed) \<Rightarrow>
          (case model face_processed of
             Inl e \<Rightarrow> Inl e
           | Inr query_embedding \<Rightarrow>
               identify_face query_embedding gallery_embeddings threshold))"

subsection \<open>Building the gallery\<close>

text \<open>\<^verbatim>\<open>d[k] = v\<close> on a dictionary kept in insertion order.\<close>

fun dict_set :: "('k \<times> 'v) list \<Rightarrow> 'k \<Rightarrow> 'v \<Rightarrow> ('k \<times> 'v) list" where
  "dict_set [] k v = [(k, v)]"
| "dict_set ((k', v') # d) k v = (if k' = k then (k, v) # d else (k', v') # dict_set d k v)"

text \<open>
  \<^verbatim>\<open>np.mean(embeddings, axis=0)\<close> on a non-empty list of one-dimensional arrays: the
  arrays are added component by component and the sum is divided by their number; arrays
  of different lengths cannot be stacked and raise ValueError.
\<close>

definition np_mean_axis0 :: "embedding \<Rightarrow> embedding list \<Rightarrow> py_error + embedding" where
  "np_mean_axis0 e es =
     (if list_all (\<lambda>x. length x = length e) es
      then Inr (map (\<lambda>s. s / real (length (e # es)))
                 (foldl (\<lambda>acc x. map (\<lambda>(a, b). a + b) (zip acc x)) e es))
      else Inl ValueError)"

text \<open>The inner loop over \<^verbatim>\<open>paths\<close>, collecting one embedding per loadable image.\<close>

fun collect_embeddings ::
  "cv2 \<Rightarrow> model \<Rightarrow> int \<Rightarrow> string list \<Rightarrow> py_error + embedding list" where
  "collect_embeddings cv model img_size [] = Inr []"
| "collect_embeddings cv model img_size (path # paths) =
     (case load_image cv path img_size of
        None \<Rightarrow> collect_embeddings cv model img_size paths
      | Some img \<Rightarrow>
          (case model img of
             Inl err \<Rightarrow> Inl err
           | Inr embedding \<Rightarrow>
               (case collect_embeddings cv model img_size paths of
                  Inl err \<Rightarrow> Inl err
                | Inr embeddings \<Rightarrow> Inr (embedding # embeddings))))"

text \<open>The outer loop over \<^verbatim>\<open>image_paths_dict.items()\<close>, threading \<^verbatim>\<open>gallery_embeddings\<close>.\<close>

fun build_gallery_loop ::
  "cv2 \<Rightarrow> model \<Rightarrow> int \<Rightarrow> (string \<times> string list) list \<Rightarrow> gallery \<Rightarrow> py_error + gallery" where
  "build_gallery_loop cv model img_size [] gallery_embeddings = Inr gallery_embeddings"
| "build_gallery_loop cv model img_size ((person_id, paths) # rest) gallery_embeddings =
     (case collect_embeddings cv model img_size paths of
        Inl err \<Rightarrow> Inl err
      | Inr [] \<Rightarrow> build_gallery_loop cv model img_size rest gallery_embeddings
      | Inr (e # es) \<Rightarrow>
          (case np_mean_axis0 e es of
             Inl err \<Rightarrow> Inl err
           | Inr avg_embedding \<Rightarrow>
               build_gallery_loop cv model img_size rest
                 (dict_set gallery_embeddings person_id avg_embedding)))"

definition build_gallery_embeddings ::
  "cv2 \<Rightarrow> model \<Rightarrow> (string \<times> string list) list \<Rightarrow> int \<Rightarrow> py_error + gallery" where
  "build_gallery_embeddings cv model image_paths_dict img_size =
     build_gallery_loop cv model img_size image_paths_dict []"

text \<open>
  The component-wise arithmetic mean of a list of vectors of dimension \<open>d\<close>, as a
  predicate on the result.
\<close>

definition is_mean_of :: "embedding \<Rightarrow> embedding list \<Rightarrow> bool" where
  "is_mean_of avg es =
     (list_all (\<lambda>e. length e = length avg) es
      \<and> list_all (\<lambda>i. avg ! i = sum_list (map (\<lambda>e. e ! i) es) / real (length es))
           [0..<length avg])"


text \<open>
  The loadable images of a person, in the order of the paths, and what the network makes
  of a list of images; \<open>embeds\<close> says that the network returns an embedding of dimension
  \<open>m\<close> for every loadable image among the paths.
\<close>

definition loadable_images :: "cv2 \<Rightarrow> int \<Rightarrow> string list \<Rightarrow> real ndarray3 list" where
  "loadable_images cv img_size paths = List.map_filter (\<lambda>p. load_image cv p img_size) paths"

definition embeddings_of :: "model \<Rightarrow> real ndarray3 list \<Rightarrow> embedding list" where
  "embeddings_of model imgs = concat (map (\<lambda>img. case model img of Inl e \<Rightarrow> [] | Inr v \<Rightarrow> [v]) imgs)"

definition embeds :: "cv2 \<Rightarrow> model \<Rightarrow> int \<Rightarrow> nat \<Rightarrow> string list \<Rightarrow> bool" where
  "embeds cv model img_size m paths =
     list_all (\<lambda>img. case model img of Inl e \<Rightarrow> False | Inr v \<Rightarrow> length v = m)
       (loadable_images cv img_size paths)"

subsection \<open>Opening the camera\<close>

text \<open>
  \<^verbatim>\<open>cv2.VideoCapture(camera_index)\<close> never raises on an integer index: it returns a handle
  that is opened or not. Whether the \<open>n\<close>-th call on an index opens is a parameter. A
  handle records the call that made it and the settings requested through
  \<^verbatim>\<open>cap.set\<close>. The state counts the calls of \<^verbatim>\<open>VideoCapture\<close> and the seconds slept.
\<close>

datatype cap_prop = CAP_PROP_FRAME_WIDTH | CAP_PROP_FRAME_HEIGHT | CAP_PROP_FPS

record capture =
  cap_index :: int
  cap_call :: nat
  cap_opened :: bool
  cap_settings :: "(cap_prop \<times> int) list"

type_synonym camera = "int \<Rightarrow> nat \<Rightarrow> bool"

record cam_state =
  calls :: nat
  sleeps :: nat

definition VideoCapture :: "camera \<Rightarrow> int \<Rightarrow> nat \<Rightarrow> capture" where
  "VideoCapture cam camera_index n =
     \<lparr> cap_index = camera_index, cap_call = n, cap_opened = cam camera_index n, cap_settings = [] \<rparr>"

definition cap_set :: "capture \<Rightarrow> cap_prop \<Rightarrow> int \<Rightarrow> capture" where
  "cap_set cap p v = cap\<lparr> cap_settings := cap_settings cap @ [(p, v)] \<rparr>"

text \<open>The three \<^verbatim>\<open>cap.set\<close> calls made on an opened handle before it is returned.\<close>

definition configure :: "capture \<Rightarrow> capture" where
  "configure cap =
     cap_set (cap_set (cap_set cap CAP_PROP_FRAME_WIDTH 640) CAP_PROP_FRAME_HEIGHT 480)
       CAP_PROP_FPS 30"

text \<open>\<^verbatim>\<open>range(n)\<close>: empty for \<open>n \<le> 0\<close>.\<close>

definition py_range :: "int \<Rightarrow> nat list" where
  "py_range n = [0..<nat n]"

text \<open>
  The \<^verbatim>\<open>for attempt in range(max_retries)\<close> loop of \<^verbatim>\<open>initialize_camera\<close>; falling out
  of it reaches \<^verbatim>\<open>sys.exit(1)\<close>.
\<close>

fun initialize_camera_loop ::
  "camera \<Rightarrow> int \<Rightarrow> nat list \<Rightarrow> cam_state \<Rightarrow> (py_error + capture) \<times> cam_state" where
  "initialize_camera_loop cam camera_index [] s = (Inl (SystemExit 1), s)"
| "initialize_camera_loop cam camera_index (attempt # rest) s =
     (let cap = VideoCapture cam camera_index (calls s);
          s1 = s\<lparr> calls := calls s + 1 \<rparr>
      in if cap_opened cap then (Inr (configure cap), s1)
         else initialize_camera_loop cam camera_index rest (s1\<lparr> sleeps := sleeps s1 + 1 \<rparr>))"

text \<open>\<^verbatim>\<open>max_retries\<close> is \<open>None\<close> when the caller leaves it at its default of 5.\<close>

definition initialize_camera ::
  "camera \<Rightarrow> int \<Rightarrow> int option \<Rightarrow> cam_state \<Rightarrow> (py_error + capture) \<times> cam_state" where
  "initialize_camera cam camera_index max_retries s =
     initialize_camera_loop cam camera_index
       (py_range (case max_retries of None \<Rightarrow> 5 | Some m \<Rightarrow> m)) s"

subsection \<open>Indexing reference images\<close>

text \<open>
  A file name is a sequence of code points below 256. \<^verbatim>\<open>str.lower\<close> moves the capital
  letters of ASCII and of Latin-1 up by 32 and leaves every other such code point alone.
\<close>

definition lower_char :: "char \<Rightarrow> char" where
  "lower_char c =
     (let n = (of_char c :: nat)
      in if (65 \<le> n \<and> n \<le> 90) \<or> (192 \<le> n \<and> n \<le> 222 \<and> n \<noteq> 215)
         then char_of (n + 32) else c)"

definition py_lower :: "string \<Rightarrow> string" where
  "py_lower s = map lower_char s"

text \<open>\<^verbatim>\<open>s.endswith(x)\<close>\<close>

definition py_endswith :: "string \<Rightarrow> string \<Rightarrow> bool" where
  "py_endswith s x = prefix (rev x) (rev s)"

text \<open>\<^verbatim>\<open>filename.lower().endswith(('.jpg', '.jpeg', '.png'))\<close>\<close>

definition is_image_name :: "string \<Rightarrow> bool" where
  "is_image_name filename =
     (py_endswith (py_lower filename) ''.jpg''
      \<or> py_endswith (py_lower filename) ''.jpeg''
      \<or> py_endswith (py_lower filename) ''.png'')"

text \<open>\<^verbatim>\<open>pattern in filename\<close>: the pattern occurs as a contiguous substring.\<close>

fun occurs_in :: "string \<Rightarrow> string \<Rightarrow> bool" where
  "occurs_in pat [] = (pat = [])"
| "occurs_in pat (c # cs) = (prefix pat (c # cs) \<or> occurs_in pat cs)"

text \<open>
  \<^verbatim>\<open>filename.split(pattern)[0]\<close>: the text before the leftmost occurrence of the pattern,
  the whole string when there is none; an empty separator raises ValueError.
\<close>

fun before_first :: "string \<Rightarrow> string \<Rightarrow> string" where
  "before_first pat [] = []"
| "before_first pat (c # cs) = (if prefix pat (c # cs) then [] else c # before_first pat cs)"

definition py_split_head :: "string \<Rightarrow> string \<Rightarrow> py_error + string" where
  "py_split_head pat s = (if pat = [] then Inl ValueError else Inr (before_first pat s))"

text \<open>\<^verbatim>\<open>s.rfind(c)\<close>: the largest index holding \<open>c\<close>, or \<open>-1\<close>.\<close>

fun rfind_from :: "char \<Rightarrow> string \<Rightarrow> int \<Rightarrow> int \<Rightarrow> int" where
  "rfind_from c [] i best = best"
| "rfind_from c (x # xs) i best = rfind_from c xs (i + 1) (if x = c then i else best)"

definition py_rfind :: "char \<Rightarrow> string \<Rightarrow> int" where
  "py_rfind c s = rfind_from c s 0 (- 1)"

text \<open>
  \<^verbatim>\<open>os.path.splitext(p)[0]\<close> (posixpath): with \<^verbatim>\<open>sepIndex = p.rfind('/')\<close> and
  \<^verbatim>\<open>dotIndex = p.rfind('.')\<close>, the root is \<^verbatim>\<open>p[:dotIndex]\<close> if the last dot comes after
  the last separator and some character between them is not a dot, else \<open>p\<close> itself.
\<close>

definition splitext_root :: "string \<Rightarrow> string" where
  "splitext_root p =
     (let sepIndex = py_rfind (CHR ''/'') p;
          dotIndex = py_rfind (CHR ''.'') p
      in if sepIndex < dotIndex
            \<and> list_ex (\<lambda>c. c \<noteq> CHR ''.'') (py_slice (sepIndex + 1) dotIndex p)
         then py_slice 0 dotIndex p
         else p)"

text \<open>\<^verbatim>\<open>os.path.join(a, b)\<close> (posixpath) on two components.\<close>

definition path_join :: "string \<Rightarrow> string \<Rightarrow> string" where
  "path_join a b =
     (if prefix ''/'' b then b
      else if a = [] \<or> py_endswith a ''/'' then a @ b
      else a @ ''/'' @ b)"

text \<open>
  \<^verbatim>\<open>if k not in d: d[k] = []\<close> followed by \<^verbatim>\<open>d[k].append(v)\<close>, on a dictionary kept in
  insertion order.
\<close>

fun dict_append :: "('k \<times> 'v list) list \<Rightarrow> 'k \<Rightarrow> 'v \<Rightarrow> ('k \<times> 'v list) list" where
  "dict_append [] k v = [(k, [v])]"
| "dict_append ((k', vs) # d) k v =
     (if k' = k then (k', vs @ [v]) # d else (k', vs) # dict_append d k v)"

record filesystem =
  fs_exists :: "string \<Rightarrow> bool"
  fs_listdir :: "string \<Rightarrow> py_error + string list"

text \<open>The person id of a file name, as the \<^verbatim>\<open>if pattern in filename\<close> statement computes it.\<close>

definition person_id_of :: "string \<Rightarrow> string \<Rightarrow> py_error + string" where
  "person_id_of pattern filename =
     (if occurs_in pattern filename then py_split_head pattern filename
      else Inr (splitext_root filename))"

fun index_loop ::
  "string \<Rightarrow> string \<Rightarrow> string list \<Rightarrow> (string \<times> string list) list
     \<Rightarrow> py_error + (string \<times> string list) list" where
  "index_loop image_dir pattern [] images_by_person = Inr images_by_person"
| "index_loop image_dir pattern (filename # rest) images_by_person =
     (if is_image_name filename
      then (case person_id_of pattern filename of
              Inl e \<Rightarrow> Inl e
            | Inr person_id \<Rightarrow>
                index_loop image_dir pattern rest
                  (dict_append images_by_person person_id (path_join image_dir filename)))
      else index_loop image_dir pattern rest images_by_person)"

definition index_images_by_person ::
  "filesystem \<Rightarrow> string \<Rightarrow> string \<Rightarrow> py_error + (string \<times> string list) list" where
  "index_images_by_person fs image_dir pattern =
     (if \<not> fs_exists fs image_dir then Inr []
      else case fs_listdir fs image_dir of
             Inl e \<Rightarrow> Inl e
           | Inr names \<Rightarrow> index_loop image_dir pattern names [])"

text \<open>
  The person id of a file name under a non-empty pattern, and the files of a listing
  that are indexed under a given person id.
\<close>

definition person_id :: "string \<Rightarrow> string \<Rightarrow> string" where
  "person_id pattern filename =
     (if occurs_in pattern filename then before_first pattern filename
      else splitext_root filename)"

definition files_of :: "string \<Rightarrow> string \<Rightarrow> string list \<Rightarrow> string list" where
  "files_of pattern pid names =
     filter (\<lambda>f. is_image_name f \<and> person_id pattern f = pid) names"

text \<open>Appending the new paths of a person to the entry the dictionary already has.\<close>

definition merge_entry :: "'v list option \<Rightarrow> 'v list \<Rightarrow> 'v list option" where
  "merge_entry old new =
     (case old of None \<Rightarrow> (if new = [] then None else Some new) | Some vs \<Rightarrow> Some (vs @ new))"

subsection \<open>Loading a TensorRT engine\<close>

text \<open>
  The constructor of \<^verbatim>\<open>TRTInfer\<close>. The environment says whether the import of
  \<^verbatim>\<open>tensorrt\<close> and \<^verbatim>\<open>pycuda\<close> at module load succeeded, which paths exist, what reading a
  file yields and what \<^verbatim>\<open>deserialize_cuda_engine\<close> makes of the bytes (None on failure).
  An engine is its list of bindings; \<^verbatim>\<open>get_binding_shape\<close> returns a shape or raises.
\<close>

record binding =
  binding_name :: string
  binding_is_input :: bool
  binding_shape :: "py_error + int list"

type_synonym engine = "binding list"

record trt_env =
  trt_imported :: bool
  path_exists :: "string \<Rightarrow> bool"
  read_file :: "string \<Rightarrow> py_error + uint8 list"
  deserialize_cuda_engine :: "uint8 list \<Rightarrow> engine option"

record trt_infer =
  engine_path :: string
  engine :: engine
  bindings :: "string list"
  input_binding :: "string option"
  input_shape :: "(int \<times> int \<times> int) option"

text \<open>\<^verbatim>\<open>_normalize_binding_shape\<close>: NCHW or CHW to \<open>(h, w, c)\<close>, anything else to None.\<close>

definition normalize_binding_shape :: "int list \<Rightarrow> (int \<times> int \<times> int) option" where
  "normalize_binding_shape arr =
     (case arr of
        [n, c, h, w] \<Rightarrow> Some (h, w, c)
      | [c, h, w] \<Rightarrow> Some (h, w, c)
      | _ \<Rightarrow> None)"

text \<open>
  The first loop over the bindings calls \<^verbatim>\<open>get_binding_shape\<close> on each of them outside
  any \<^verbatim>\<open>try\<close>: the first error it raises leaves the constructor.
\<close>

fun first_shape_error :: "engine \<Rightarrow> py_error option" where
  "first_shape_error [] = None"
| "first_shape_error (b # bs) =
     (case binding_shape b of Inl e \<Rightarrow> Some e | Inr shape \<Rightarrow> first_shape_error bs)"

text \<open>
  The second loop stops at the first input binding and assigns \<^verbatim>\<open>self.input_binding\<close> and
  \<^verbatim>\<open>bs\<close> there (\<^verbatim>\<open>bs = None\<close> when the shape raises); without an input binding
  \<^verbatim>\<open>bs\<close> is never assigned.
\<close>

fun find_input_binding :: "engine \<Rightarrow> (string \<times> int list option) option" where
  "find_input_binding [] = None"
| "find_input_binding (b # bs) =
     (if binding_is_input b
      then Some (binding_name b, (case binding_shape b of Inl e \<Rightarrow> None | Inr shape \<Rightarrow> Some shape))
      else find_input_binding bs)"

definition trt_infer_init ::
  "trt_env \<Rightarrow> string \<Rightarrow> (int \<times> int \<times> int) option \<Rightarrow> py_error + trt_infer" where
  "trt_infer_init env path shape_arg =
     (if \<not> trt_imported env then Inl RuntimeError
      else if \<not> path_exists env path then Inl FileNotFoundError
      else case read_file env path of
             Inl e \<Rightarrow> Inl e
           | Inr bytes \<Rightarrow>
               (case deserialize_cuda_engine env bytes of
                  None \<Rightarrow> Inl RuntimeError
                | Some eng \<Rightarrow>
                    (case first_shape_error eng of
                       Some e \<Rightarrow> Inl e
                     | None \<Rightarrow>
                         (let self = \<lparr> engine_path = path, engine = eng,
                                       bindings = map binding_name eng,
                                       input_binding = map_option fst (find_input_binding eng),
                                       input_shape = None \<rparr>
                          in case shape_arg of
                               Some sh \<Rightarrow> Inr (self\<lparr> input_shape := Some sh \<rparr>)
                             | None \<Rightarrow>
                                 (case find_input_binding eng of
                                    None \<Rightarrow> Inl UnboundLocalError
                                  | Some (name, None) \<Rightarrow> Inr self
                                  | Some (name, Some bs) \<Rightarrow>
                                      Inr (self\<lparr> input_shape := normalize_binding_shape bs \<rparr>))))))"

subsection \<open>Capturing one image\<close>

text \<open>
  The local path of \<^verbatim>\<open>capture_image\<close>, taken when \<^verbatim>\<open>google.colab\<close> cannot be imported.
  The world gives the camera, the value of the \<open>k\<close>-th call of \<^verbatim>\<open>time.time()\<close>, the result
  of the \<open>k\<close>-th \<^verbatim>\<open>cap.read()\<close> (None when \<^verbatim>\<open>ret\<close> is false), the \<open>k\<close>-th key code of
  \<^verbatim>\<open>cv2.waitKey(1)\<close>, and what \<^verbatim>\<open>cv2.imwrite\<close> does with a file name and a frame: it raises,
  or reports whether the file was written.
\<close>

record capture_world =
  w_camera :: camera
  w_clock :: "nat \<Rightarrow> real"
  w_read :: "nat \<Rightarrow> uint8 ndarray3 option"
  w_key :: "nat \<Rightarrow> int"
  w_imwrite :: "string \<Rightarrow> uint8 ndarray3 \<Rightarrow> py_error + bool"

text \<open>
  The \<^verbatim>\<open>while time.time() - start < timeout\<close> loop; \<open>t\<close>, \<open>r\<close> and \<open>k\<close> count the calls of
  the clock, of \<^verbatim>\<open>cap.read()\<close> and of \<^verbatim>\<open>waitKey\<close> made so far. The loop need not end: a
  clock that stands still while every read fails keeps it running.
\<close>

partial_function (option) capture_loop ::
  "capture_world \<Rightarrow> bool \<Rightarrow> real \<Rightarrow> real \<Rightarrow> nat \<Rightarrow> nat \<Rightarrow> nat \<Rightarrow> uint8 ndarray3 option
     \<Rightarrow> (py_error + uint8 ndarray3 option) option" where
  "capture_loop w interactive start timeout t r k frame =
     (if w_clock w t - start < timeout
      then (case w_read w r of
              None \<Rightarrow> capture_loop w interactive start timeout (t + 1) (r + 1) k frame
            | Some tmp \<Rightarrow>
                if interactive
                then (if w_key w k mod 256 = 99 then Some (Inr (Some tmp))
                      else if w_key w k mod 256 = 113
                      then Some (Inl (PyException ''Capture cancelled by user''))
                      else capture_loop w interactive start timeout (t + 1) (r + 1) (k + 1)
                             (Some tmp))
                else Some (Inr (Some tmp)))
      else Some (Inr frame))"

text \<open>
  The written files are a map from file names to frames. The result is None when the
  loop does not end.
\<close>

definition capture_image_local ::
  "capture_world \<Rightarrow> string \<Rightarrow> int \<Rightarrow> real \<Rightarrow> bool \<Rightarrow> (string \<rightharpoonup> uint8 ndarray3)
     \<Rightarrow> ((py_error + string) \<times> (string \<rightharpoonup> uint8 ndarray3)) option" where
  "capture_image_local w filename camera_index timeout interactive files =
     (if \<not> cap_opened (VideoCapture (w_camera w) camera_index 0)
      then Some (Inl (PyException ''Could not open webcam''), files)
      else case capture_loop w interactive (w_clock w 0) timeout 1 0 0 None of
             None \<Rightarrow> None
           | Some (Inl e) \<Rightarrow> Some (Inl e, files)
           | Some (Inr None) \<Rightarrow>
               Some (Inl (PyException ''Capture failed: no frame received from webcam''), files)
           | Some (Inr (Some frame)) \<Rightarrow>
               (case w_imwrite w filename frame of
                  Inl e \<Rightarrow> Some (Inl e, files)
                | Inr written \<Rightarrow>
                    Some (Inr filename, if written then files(filename \<mapsto> frame) else files)))"

text \<open>
  Before the timeout: the \<open>(j + 1)\<close>-th look at the clock is still within the timeout.
  The first valid frame is the \<open>j\<close>-th read: all earlier reads failed within the timeout.
  The timeout expires at the \<open>j\<close>-th round: all earlier reads failed within the timeout.
\<close>

definition in_time :: "capture_world \<Rightarrow> real \<Rightarrow> nat \<Rightarrow> bool" where
  "in_time w timeout j = (w_clock w (j + 1) - w_clock w 0 < timeout)"

definition first_frame :: "capture_world \<Rightarrow> real \<Rightarrow> nat \<Rightarrow> uint8 ndarray3 \<Rightarrow> bool" where
  "first_frame w timeout j frame =
     (list_all (\<lambda>i. in_time w timeout i \<and> w_read w i = None) [0..<j]
      \<and> in_time w timeout j \<and> w_read w j = Some frame)"

definition times_out :: "capture_world \<Rightarrow> real \<Rightarrow> nat \<Rightarrow> bool" where
  "times_out w timeout j =
     (list_all (\<lambda>i. in_time w timeout i \<and> w_read w i = None) [0..<j]
      \<and> \<not> in_time w timeout j)"

text \<open>The number of attempts the loop can make.\<close>

definition retries :: "int option \<Rightarrow> nat" where
  "retries max_retries = nat (case max_retries of None \<Rightarrow> 5 | Some m \<Rightarrow> m)"

subsection \<open>A concrete environment\<close>

text \<open>
  A small stand-in for the OpenCV calls and the network, on which the functions above are
  evaluated: one readable file, channel reversal for BGR to RGB, the first channel for
  grey, a resize that fills the target with the top-left pixel, and a detector that
  raises on an empty cascade path and reports three rectangles on any frame of at least
  three rows.
\<close>

definition example_cv2 :: cv2 where
  "example_cv2 =
     \<lparr> cv_imread = (\<lambda>p. if p = ''ref/alice__1.jpg'' then Inr (Some [[[0, 51, 255]]])
                        else if p = ''ref/alice__2.jpg'' then Inr (Some [[[0, 153, 255]]])
                        else Inr None),
       cv_cvtColor = (\<lambda>img c. case img of
                          [] \<Rightarrow> Inl CvError
                        | _ # _ \<Rightarrow> (case c of
                                      COLOR_BGR2RGB \<Rightarrow> Inr (map (map rev) img)
                                    | COLOR_BGR2GRAY \<Rightarrow> Inr (map (map (take 1)) img))),
       cv_resize = (\<lambda>img (w, h). case img of
                        (px # _) # _ \<Rightarrow>
                          if w \<le> 0 \<or> h \<le> 0 then Inl CvError
                          else Inr (replicate (nat h) (replicate (nat w) px))
                      | _ \<Rightarrow> Inl CvError),
       cv_data_haarcascades = ''/usr/share/opencv4/haarcascades/'',
       cv_detectMultiScale = (\<lambda>path gray. if path = [] then Inl CvError
                                            else if length gray < 3 then Inr []
                                            else Inr [(0, 0, 1, 1), (1, 0, 2, 2), (0, 1, 2, 2)]) \<rparr>"

text \<open>A camera at index 0 that opens from the third call on; no camera at other indices.\<close>

definition example_camera :: camera where
  "example_camera camera_index n = (camera_index = 0 \<and> 2 \<le> n)"

text \<open>
  A host with TensorRT on which \<^verbatim>\<open>model.trt\<close> deserialises to an engine with one output
  binding and no input binding, \<^verbatim>\<open>face.trt\<close> to an engine with an NCHW input, and
  \<^verbatim>\<open>engines\<close> is a directory, which exists and cannot be read as a file.
\<close>

definition example_trt :: trt_env where
  "example_trt =
     \<lparr> trt_imported = True,
       path_exists = (\<lambda>p. p = ''model.trt'' \<or> p = ''face.trt'' \<or> p = ''engines''),
       read_file = (\<lambda>p. if p = ''model.trt'' then Inr [1] else if p = ''face.trt'' then Inr [2]
                         else Inl OSError),
       deserialize_cuda_engine =
         (\<lambda>bytes. if bytes = [1]
                   then Some [\<lparr> binding_name = ''embedding'', binding_is_input = False,
                                 binding_shape = Inr [1, 64] \<rparr>]
                   else if bytes = [2]
                   then Some [\<lparr> binding_name = ''image'', binding_is_input = True,
                                 binding_shape = Inr [1, 3, 128, 128] \<rparr>,
                              \<lparr> binding_name = ''embedding'', binding_is_input = False,
                                 binding_shape = Inr [1, 64] \<rparr>]
                   else None) \<rparr>"

text \<open>
  A file system with the directory \<^verbatim>\<open>ref\<close> of reference images and the directory
  \<^verbatim>\<open>dots\<close> holding one file named \<^verbatim>\<open>.jpg\<close>; \<^verbatim>\<open>notes.txt\<close> exists and is not a directory.
\<close>

definition example_fs :: filesystem where
  "example_fs =
     \<lparr> fs_exists = (\<lambda>p. p = ''ref'' \<or> p = ''dots'' \<or> p = ''notes.txt''),
       fs_listdir = (\<lambda>p. if p = ''ref''
                          then Inr [''alice__1.jpg'', ''bob.PNG'', ''notes.txt'', ''alice__2.JPEG'']
                          else if p = ''dots'' then Inr [''.jpg'']
                          else Inl OSError) \<rparr>"

text \<open>
  A world whose camera at index 0 opens, whose clock advances by one second per look,
  whose first read fails and second read delivers a frame, and whose \<^verbatim>\<open>imwrite\<close> raises
  on a file name without a \<^verbatim>\<open>.jpg\<close> or \<^verbatim>\<open>.png\<close> extension.
\<close>

definition example_world :: capture_world where
  "example_world =
     \<lparr> w_camera = (\<lambda>camera_index n. camera_index = 0),
       w_clock = (\<lambda>k. real k),
       w_read = (\<lambda>k. if k = 1 then Some [[[7, 8, 9]]] else None),
       w_key = (\<lambda>k. - 1),
       w_imwrite = (\<lambda>filename frame.
                      if py_endswith (py_lower filename) ''.jpg''
                         \<or> py_endswith (py_lower filename) ''.png''
                      then Inr True else Inl CvError) \<rparr>"

definition example_model :: model where
  "example_model img =
     (case img of ((r # g # _) # _) # _ \<Rightarrow> Inr [r, g] | _ \<Rightarrow> Inl ValueError)"

section \<open>Properties\<close>

subsection \<open>Nearest-neighbour identification\<close>

lemma float_less_irrefl: "\<not> float_less a a"
  by (cases a) auto

lemma float_not_less_trans:
  "\<not> float_less a b \<Longrightarrow> \<not> float_less b c \<Longrightarrow> \<not> float_less a c"
  by (cases a; cases b; cases c) auto

lemma sum_list_zip_diff:
  assumes "length (u::real list) = length v"
  shows "sum_list (map (\<lambda>x. x * x) (map (\<lambda>(x, y). x - y) (zip u v))) = (\<Sum>i<length u. (u ! i - v ! i)\<^sup>2)"
proof -
  let ?ds = "map (\<lambda>x. x * x) (map (\<lambda>(x, y). x - y) (zip u v))"
  have n: "length ?ds = length u"
    using assms by simp
  have nth: "?ds ! i = (u ! i - v ! i)\<^sup>2" if "i < length u" for i
    using that assms by (simp add: power2_eq_square)
  have "sum_list ?ds = (\<Sum>i = 0..<length ?ds. ?ds ! i)"
    by (rule sum_list_sum_nth)
  also have "\<dots> = (\<Sum>i = 0..<length u. ?ds ! i)"
    by (simp only: n)
  also have "\<dots> = (\<Sum>i = 0..<length u. (u ! i - v ! i)\<^sup>2)"
  proof (rule sum.cong)
    fix x assume "x \<in> {0..<length u}"
    then have "x < length u" by simp
    then show "?ds ! x = (u ! x - v ! x)\<^sup>2" by (rule nth)
  qed (rule refl)
  finally show ?thesis by (simp only: atLeast0LessThan)
qed

lemma euclidean_distance_same_length:
  assumes "length e = length q"
  shows "euclidean_distance q e = Inr (l2_distance q e)"
proof -
  have "np_subtract q e = Inr (map (\<lambda>(x, y). x - y) (zip q e))"
    using assms by (simp add: np_subtract_def)
  moreover have "np_linalg_norm (map (\<lambda>(x, y). x - y) (zip q e)) = l2_distance q e"
    unfolding np_linalg_norm_def l2_distance_def
    using sum_list_zip_diff[of q e] assms by (simp only:)
  ultimately show ?thesis
    by (simp add: euclidean_distance_def)
qed

lemma identify_scan_result:
  assumes "\<forall>(k, e) \<in> set g. length e = length q"
  shows "\<exists>md' ip'. identify_scan q g (md, ip) = Inr (md', ip')
           \<and> (\<forall>(k, e) \<in> set g. \<not> float_less (Fin (l2_distance q e)) md')
           \<and> \<not> float_less md md'
           \<and> ((md', ip') = (md, ip) \<or> (\<exists>(k, e) \<in> set g. md' = Fin (l2_distance q e) \<and> ip' = k))"
  using assms
proof (induction g arbitrary: md ip)
  case Nil
  then show ?case by (simp add: float_less_irrefl)
next
  case (Cons a g)
  obtain k e where a: "a = (k, e)" by (cases a)
  from Cons.prems a have len: "length e = length q" and rest: "\<forall>(k, e) \<in> set g. length e = length q"
    by auto
  have ed: "euclidean_distance q e = Inr (l2_distance q e)"
    using len by (rule euclidean_distance_same_length)
  show ?case
  proof (cases "float_less (Fin (l2_distance q e)) md")
    case True
    from Cons.IH[OF rest, of "Fin (l2_distance q e)" k]
    obtain md' ip' where r: "identify_scan q g (Fin (l2_distance q e), k) = Inr (md', ip')"
      and lo: "\<forall>(k, e) \<in> set g. \<not> float_less (Fin (l2_distance q e)) md'"
      and le: "\<not> float_less (Fin (l2_distance q e)) md'"
      and src: "(md', ip') = (Fin (l2_distance q e), k) \<or> (\<exists>(k, e) \<in> set g. md' = Fin (l2_distance q e) \<and> ip' = k)"
      by blast
    have "\<not> float_less md md'"
      using True le by (cases md; cases md') auto
    with r lo le src True show ?thesis
      by (auto simp: a ed)
  next
    case False
    from Cons.IH[OF rest, of md ip]
    obtain md' ip' where r: "identify_scan q g (md, ip) = Inr (md', ip')"
      and lo: "\<forall>(k, e) \<in> set g. \<not> float_less (Fin (l2_distance q e)) md'"
      and le: "\<not> float_less md md'"
      and src: "(md', ip') = (md, ip) \<or> (\<exists>(k, e) \<in> set g. md' = Fin (l2_distance q e) \<and> ip' = k)"
      by blast
    have "\<not> float_less (Fin (l2_distance q e)) md'"
      using False le by (rule float_not_less_trans)
    with r lo le src False show ?thesis
      by (auto simp: a ed)
  qed
qed

text \<open>
  C8: on an empty gallery the loop body never runs, so \<^verbatim>\<open>identify_face\<close> returns
  \<^verbatim>\<open>("UNKNOWN", inf, "REJECT")\<close> for every query and every threshold.
\<close>

theorem identify_face_empty_gallery:
  "identify_face q [] thr = Inr (''UNKNOWN'', PosInf, ''REJECT'')"
  by (simp add: identify_face_def)

lemma identify_scan_nonempty:
  assumes ne: "g \<noteq> []" and len: "\<forall>(k, e) \<in> set g. length e = length q"
  shows "\<exists>k e. (k, e) \<in> set g
           \<and> identify_scan q g (PosInf, ''UNKNOWN'') = Inr (Fin (l2_distance q e), k)
           \<and> l2_distance q e = Min ((\<lambda>(k, e). l2_distance q e) ` set g)"
proof -
  from identify_scan_result[OF len, of PosInf "''UNKNOWN''"]
  obtain md' ip' where r: "identify_scan q g (PosInf, ''UNKNOWN'') = Inr (md', ip')"
    and lo: "\<forall>(k, e) \<in> set g. \<not> float_less (Fin (l2_distance q e)) md'"
    and src: "(md', ip') = (PosInf, ''UNKNOWN'') \<or> (\<exists>(k, e) \<in> set g. md' = Fin (l2_distance q e) \<and> ip' = k)"
    by blast
  from ne obtain k0 e0 where in0: "(k0, e0) \<in> set g"
    by (cases g) auto
  with lo have "\<not> float_less (Fin (l2_distance q e0)) md'" by auto
  then have "md' \<noteq> PosInf" by auto
  with src obtain k e where ke: "(k, e) \<in> set g" and md: "md' = Fin (l2_distance q e)" and ip: "ip' = k"
    by auto
  have least: "l2_distance q e \<le> l2_distance q e'" if "(k', e') \<in> set g" for k' e'
    using lo that md by fastforce
  have "Min ((\<lambda>(k, e). l2_distance q e) ` set g) = l2_distance q e"
  proof (rule Min_eqI)
    show "finite ((\<lambda>(k, e). l2_distance q e) ` set g)" by simp
    show "l2_distance q e \<le> y" if "y \<in> (\<lambda>(k, e). l2_distance q e) ` set g" for y
      using that least by auto
    show "l2_distance q e \<in> (\<lambda>(k, e). l2_distance q e) ` set g"
      using ke by force
  qed
  with r ke md ip show ?thesis by auto
qed

text \<open>
  C1: for a non-empty gallery whose embeddings have the dimension of the query,
  \<^verbatim>\<open>identify_face\<close> returns the minimum of the Euclidean distances from the query to
  the gallery embeddings; the status is MATCH exactly when that minimum is strictly below
  the threshold; on MATCH the returned person id is a gallery key whose embedding attains
  the minimum, and on REJECT the returned person id is UNKNOWN.
\<close>

theorem identify_face_nearest_neighbour:
  assumes "g \<noteq> []" and "list_all (\<lambda>(k, e). length e = length q) g"
  shows "\<exists>pid d st. identify_face q g thr = Inr (pid, Fin d, st)
           \<and> d = Min ((\<lambda>(k, e). l2_distance q e) ` set g)
           \<and> (st = ''MATCH'' \<or> st = ''REJECT'')
           \<and> (st = ''MATCH'' \<longleftrightarrow> float_less (Fin d) thr)
           \<and> (st = ''MATCH'' \<longrightarrow> (\<exists>e. (pid, e) \<in> set g \<and> l2_distance q e = d))
           \<and> (st = ''REJECT'' \<longrightarrow> pid = ''UNKNOWN'')"
proof -
  from assms(2) have len: "\<forall>(k, e) \<in> set g. length e = length q"
    by (simp add: list_all_iff)
  from identify_scan_nonempty[OF assms(1) len]
  obtain k e where ke: "(k, e) \<in> set g"
    and r: "identify_scan q g (PosInf, ''UNKNOWN'') = Inr (Fin (l2_distance q e), k)"
    and m: "l2_distance q e = Min ((\<lambda>(k, e). l2_distance q e) ` set g)"
    by blast
  show ?thesis
  proof (cases "float_less (Fin (l2_distance q e)) thr")
    case True
    then have "identify_face q g thr = Inr (k, Fin (l2_distance q e), ''MATCH'')"
      by (simp add: identify_face_def r)
    with True ke m show ?thesis by auto
  next
    case False
    then have "identify_face q g thr = Inr (''UNKNOWN'', Fin (l2_distance q e), ''REJECT'')"
      by (simp add: identify_face_def r)
    with False ke m show ?thesis by auto
  qed
qed

lemma sqrt_25: "sqrt 25 = 5"
  by (rule real_sqrt_unique) simp_all

theorem identify_face_nearest_neighbour_witness:
  "[(''alice'', [0, 0]), (''bob'', [3, 4::real])] \<noteq> []
   \<and> list_all (\<lambda>(k, e). length e = length [3, 4::real]) [(''alice'', [0, 0]), (''bob'', [3, 4::real])]
   \<and> (\<exists>pid d st. identify_face [3, 4] [(''alice'', [0, 0]), (''bob'', [3, 4])] (Fin (6 / 10))
          = Inr (pid, Fin d, st)
        \<and> d = Min ((\<lambda>(k, e). l2_distance [3, 4] e) ` set [(''alice'', [0, 0]), (''bob'', [3, 4])]))
   \<and> identify_face [3, 4] [(''alice'', [0, 0]), (''bob'', [3, 4])] (Fin (6 / 10))
        = Inr (''bob'', Fin 0, ''MATCH'')"
proof -
  have h1: "[(''alice'', [0, 0]), (''bob'', [3, 4::real])] \<noteq> []" by simp
  have h2: "list_all (\<lambda>(k, e). length e = length [3, 4::real]) [(''alice'', [0, 0]), (''bob'', [3, 4::real])]"
    by simp
  have v: "identify_face [3, 4] [(''alice'', [0, 0]), (''bob'', [3, 4])] (Fin (6 / 10))
        = Inr (''bob'', Fin 0, ''MATCH'')"
    by (simp add: identify_face_def euclidean_distance_def np_subtract_def np_linalg_norm_def sqrt_25)
  from identify_face_nearest_neighbour[OF h1 h2, of "Fin (6 / 10)"]
  have "\<exists>pid d st. identify_face [3, 4] [(''alice'', [0, 0]), (''bob'', [3, 4])] (Fin (6 / 10))
          = Inr (pid, Fin d, st)
        \<and> d = Min ((\<lambda>(k, e). l2_distance [3, 4] e) ` set [(''alice'', [0, 0]), (''bob'', [3, 4])])"
    by blast
  with h1 h2 v show ?thesis by blast
qed

subsection \<open>Preprocessing\<close>

lemma uint8_le_255: "unat (p :: uint8) \<le> 255"
proof -
  have "unat p < 2 ^ LENGTH(8)" by (rule unsigned_less)
  then show ?thesis by simp
qed

lemma uint8_unit_interval: "0 \<le> real (unat (p :: uint8)) / 255 \<and> real (unat p) / 255 \<le> 1"
proof -
  define m where "m = unat p"
  have "m \<le> 255"
    unfolding m_def by (rule uint8_le_255)
  then have "0 \<le> real m / 255 \<and> real m / 255 \<le> 1"
    by simp
  then show ?thesis
    unfolding m_def .
qed

lemma normalize255_unit_interval:
  "list_all (list_all (list_all (\<lambda>c. 0 \<le> c \<and> c \<le> 1))) (normalize255 r)"
proof -
  have "list_all (\<lambda>c. 0 \<le> c \<and> c \<le> 1) (map (\<lambda>p. real (unat p) / 255) px)" for px :: "uint8 list"
    unfolding list_all_iff using uint8_unit_interval by auto
  then show ?thesis
    unfolding normalize255_def by (simp only: list_all_iff set_map ball_simps) blast
qed

lemma normalize255_shape:
  "length (normalize255 r) = length r \<and> map length (normalize255 r) = map length r
   \<and> map (map length) (normalize255 r) = map (map length) r"
  by (simp add: normalize255_def comp_def)

lemma normalize255_nth:
  "i < length r \<Longrightarrow> j < length (r ! i) \<Longrightarrow> k < length (r ! i ! j) \<Longrightarrow>
   normalize255 r ! i ! j ! k = real (unat (r ! i ! j ! k)) / 255"
  by (simp add: normalize255_def)

text \<open>
  C6: \<^verbatim>\<open>preprocess_image\<close> returns None for a None input. For an image, when
  \<^verbatim>\<open>cv2.resize\<close> to \<open>(img_size, img_size)\<close> returns the array \<open>r\<close>, the result is \<open>r\<close> with
  every byte divided by 255: it has the shape of \<open>r\<close> and every component lies in the
  interval from 0 to 1. An error raised by \<^verbatim>\<open>cv2.resize\<close> propagates.
\<close>

theorem preprocess_image_normalised:
  "preprocess_image cv None n = Inr None
   \<and> (cv_resize cv img (n, n) = Inr r \<longrightarrow>
        preprocess_image cv (Some img) n = Inr (Some (normalize255 r))
        \<and> length (normalize255 r) = length r
        \<and> map length (normalize255 r) = map length r
        \<and> map (map length) (normalize255 r) = map (map length) r
        \<and> (\<forall>i j k. i < length r \<and> j < length (r ! i) \<and> k < length (r ! i ! j) \<longrightarrow>
              normalize255 r ! i ! j ! k = real (unat (r ! i ! j ! k)) / 255)
        \<and> list_all (list_all (list_all (\<lambda>c. 0 \<le> c \<and> c \<le> 1))) (normalize255 r))
   \<and> (cv_resize cv img (n, n) = Inl e \<longrightarrow> preprocess_image cv (Some img) n = Inl e)"
  using normalize255_unit_interval[of r] normalize255_shape[of r] normalize255_nth[of _ r]
  by (simp add: preprocess_image_def)

theorem preprocess_image_normalised_witness:
  "cv_resize example_cv2 [[[255, 0, 51]]] (2, 2) = Inr [[[255, 0, 51], [255, 0, 51]], [[255, 0, 51], [255, 0, 51]]]
   \<and> preprocess_image example_cv2 (Some [[[255, 0, 51]]]) 2
       = Inr (Some (normalize255 [[[255, 0, 51], [255, 0, 51]], [[255, 0, 51], [255, 0, 51]]]))
   \<and> list_all (list_all (list_all (\<lambda>c. 0 \<le> c \<and> c \<le> 1)))
        (normalize255 [[[255, 0, 51], [255, 0, 51]], [[255, 0, 51], [255, 0, 51]]])
   \<and> normalize255 [[[255, 0, 51], [255, 0, 51]], [[255, 0, 51], [255, 0, 51]]]
       = [[[1, 0, 1 / 5], [1, 0, 1 / 5]], [[1, 0, 1 / 5], [1, 0, 1 / 5]]]"
proof -
  have h: "cv_resize example_cv2 [[[255, 0, 51]]] (2, 2)
         = Inr [[[255, 0, 51], [255, 0, 51]], [[255, 0, 51], [255, 0, 51]]]"
    by (simp add: example_cv2_def numeral_2_eq_2)
  have v: "normalize255 [[[255, 0, 51], [255, 0, 51]], [[255, 0, 51], [255, 0, 51 :: uint8]]]
       = [[[1, 0, 1 / 5], [1, 0, 1 / 5]], [[1, 0, 1 / 5], [1, 0, 1 / 5]]]"
    by (simp add: normalize255_def)
  from preprocess_image_normalised[of example_cv2 2 "[[[255, 0, 51]]]"
      "[[[255, 0, 51], [255, 0, 51]], [[255, 0, 51], [255, 0, 51]]]"] h v
  show ?thesis by blast
qed

subsection \<open>Consistency of the identification result\<close>

lemma identify_scan_source:
  "identify_scan q g (md, ip) = Inr (md', ip') \<Longrightarrow>
     (md', ip') = (md, ip) \<or> (ip' \<in> fst ` set g \<and> md' \<noteq> PosInf)"
proof (induction g arbitrary: md ip)
  case Nil
  then show ?case by simp
next
  case (Cons a g)
  obtain k e where a: "a = (k, e)" by (cases a)
  from Cons.prems a obtain dist where d: "euclidean_distance q e = Inr dist"
    by (cases "euclidean_distance q e") auto
  show ?case
  proof (cases "float_less (Fin dist) md")
    case True
    with Cons.prems a d have "identify_scan q g (Fin dist, k) = Inr (md', ip')" by simp
    from Cons.IH[OF this] show ?thesis by (auto simp: a)
  next
    case False
    with Cons.prems a d have "identify_scan q g (md, ip) = Inr (md', ip')" by simp
    from Cons.IH[OF this] show ?thesis by auto
  qed
qed

lemma identify_face_triple:
  assumes "identify_face q g thr = Inr (pid, d, st)"
  shows "(st = ''MATCH'' \<or> st = ''REJECT'')
       \<and> (pid \<noteq> ''UNKNOWN'' \<longrightarrow> st = ''MATCH'')
       \<and> (st = ''MATCH'' \<longrightarrow> pid \<in> fst ` set g)"
proof -
  from assms obtain md ip where r: "identify_scan q g (PosInf, ''UNKNOWN'') = Inr (md, ip)"
    by (cases "identify_scan q g (PosInf, ''UNKNOWN'')") (auto simp: identify_face_def)
  from identify_scan_source[OF r]
  have src: "(md, ip) = (PosInf, ''UNKNOWN'') \<or> ip \<in> fst ` set g" by blast
  show ?thesis
  proof (cases "float_less md thr")
    case True
    with assms r have "pid = ip" "st = ''MATCH''" by (simp_all add: identify_face_def)
    moreover from True have "md \<noteq> PosInf" by auto
    ultimately show ?thesis using src by auto
  next
    case False
    with assms r have "pid = ''UNKNOWN''" "st = ''REJECT''" by (simp_all add: identify_face_def)
    then show ?thesis by simp
  qed
qed

lemma identify_face_from_frame_cases:
  assumes "identify_face_from_frame cv face model g thr n = Inr (pid, d, st)"
  shows "(pid, d, st) = (''UNKNOWN'', PosInf, ''REJECT'') \<or> (\<exists>q. identify_face q g thr = Inr (pid, d, st))"
  using assms
  by (auto simp: identify_face_from_frame_def split: sum.splits option.splits)

text \<open>
  A gallery may hold the key UNKNOWN itself (a reference file named \<^verbatim>\<open>UNKNOWN.jpg\<close>);
  a query matching it is reported as MATCH with person id UNKNOWN.
\<close>

theorem identify_face_unknown_key_counterexample:
  "identify_face [0] [(''UNKNOWN'', [0])] (Fin (6 / 10)) = Inr (''UNKNOWN'', Fin 0, ''MATCH'')"
  by (simp add: identify_face_def euclidean_distance_def np_subtract_def np_linalg_norm_def)

text \<open>
  C9 (amended): whenever \<^verbatim>\<open>identify_face\<close> returns a triple, the status is MATCH or
  REJECT, a person id other than UNKNOWN comes with status MATCH, on MATCH the person id
  is a key of the gallery, and if UNKNOWN is not a key of the gallery then the status is
  MATCH exactly when the person id is not UNKNOWN. The same holds for
  \<^verbatim>\<open>identify_face_from_frame\<close>, which returns \<^verbatim>\<open>("UNKNOWN", inf, "REJECT")\<close> whenever
  preprocessing yields None.
\<close>

theorem identify_face_status_consistent:
  "(identify_face q g thr = Inr (pid, d, st) \<longrightarrow>
      (st = ''MATCH'' \<or> st = ''REJECT'')
      \<and> (pid \<noteq> ''UNKNOWN'' \<longrightarrow> st = ''MATCH'')
      \<and> (''UNKNOWN'' \<notin> fst ` set g \<longrightarrow> (st = ''MATCH'' \<longleftrightarrow> pid \<noteq> ''UNKNOWN''))
      \<and> (st = ''MATCH'' \<longrightarrow> pid \<in> fst ` set g))
   \<and> (identify_face_from_frame cv face model g thr n = Inr (pid', d', st') \<longrightarrow>
      (st' = ''MATCH'' \<or> st' = ''REJECT'')
      \<and> (pid' \<noteq> ''UNKNOWN'' \<longrightarrow> st' = ''MATCH'')
      \<and> (''UNKNOWN'' \<notin> fst ` set g \<longrightarrow> (st' = ''MATCH'' \<longleftrightarrow> pid' \<noteq> ''UNKNOWN''))
      \<and> (st' = ''MATCH'' \<longrightarrow> pid' \<in> fst ` set g))
   \<and> (preprocess_image cv face n = Inr None \<longrightarrow>
      identify_face_from_frame cv face model g thr n = Inr (''UNKNOWN'', PosInf, ''REJECT''))"
proof (intro conjI impI)
  assume a: "identify_face q g thr = Inr (pid, d, st)"
  note t = identify_face_triple[OF a]
  from t show "st = ''MATCH'' \<or> st = ''REJECT''" by blast
  from t show "st = ''MATCH''" if "pid \<noteq> ''UNKNOWN''" using that by blast
  from t show "(st = ''MATCH'') = (pid \<noteq> ''UNKNOWN'')" if "''UNKNOWN'' \<notin> fst ` set g"
    using that by blast
  from t show "pid \<in> fst ` set g" if "st = ''MATCH''" using that by blast
next
  assume a: "identify_face_from_frame cv face model g thr n = Inr (pid', d', st')"
  have t: "(st' = ''MATCH'' \<or> st' = ''REJECT'')
       \<and> (pid' \<noteq> ''UNKNOWN'' \<longrightarrow> st' = ''MATCH'')
       \<and> (st' = ''MATCH'' \<longrightarrow> pid' \<in> fst ` set g)"
    using identify_face_from_frame_cases[OF a]
  proof
    assume "(pid', d', st') = (''UNKNOWN'', PosInf, ''REJECT'')"
    then show ?thesis by simp
  next
    assume "\<exists>q. identify_face q g thr = Inr (pid', d', st')"
    then obtain q' where "identify_face q' g thr = Inr (pid', d', st')" ..
    then show ?thesis by (rule identify_face_triple)
  qed
  from t show "st' = ''MATCH'' \<or> st' = ''REJECT''" by blast
  from t show "st' = ''MATCH''" if "pid' \<noteq> ''UNKNOWN''" using that by blast
  from t show "(st' = ''MATCH'') = (pid' \<noteq> ''UNKNOWN'')" if "''UNKNOWN'' \<notin> fst ` set g"
    using that by blast
  from t show "pid' \<in> fst ` set g" if "st' = ''MATCH''" using that by blast
next
  assume "preprocess_image cv face n = Inr None"
  then show "identify_face_from_frame cv face model g thr n = Inr (''UNKNOWN'', PosInf, ''REJECT'')"
    by (simp add: identify_face_from_frame_def)
qed

theorem identify_face_status_consistent_witness:
  "identify_face [0] [(''alice'', [0])] (Fin (1 / 2)) = Inr (''alice'', Fin 0, ''MATCH'')
   \<and> ''alice'' \<in> fst ` set [(''alice'', [0::real])]
   \<and> identify_face_from_frame example_cv2 (Some [[[0, 0, 51]]]) example_model
        [(''alice'', [0])] (Fin (1 / 2)) 1 = Inr (''alice'', Fin 0, ''MATCH'')
   \<and> preprocess_image example_cv2 None 1 = Inr None
   \<and> identify_face_from_frame example_cv2 None example_model [(''alice'', [0])] (Fin (1 / 2)) 1
        = Inr (''UNKNOWN'', PosInf, ''REJECT'')"
proof -
  have h1: "identify_face [0] [(''alice'', [0])] (Fin (1 / 2)) = Inr (''alice'', Fin 0, ''MATCH'')"
    by (simp add: identify_face_def euclidean_distance_def np_subtract_def np_linalg_norm_def)
  have p2: "preprocess_image example_cv2 (Some [[[0, 0, 51]]]) 1 = Inr (Some [[[0, 0, 1 / 5]]])"
    by (simp add: preprocess_image_def example_cv2_def normalize255_def)
  have m2: "example_model [[[0, 0, 1 / 5]]] = Inr [0, 0]"
    by (simp add: example_model_def)
  have i2: "identify_face [0, 0] [(''alice'', [0])] (Fin (1 / 2)) = Inr (''alice'', Fin 0, ''MATCH'')"
    by (simp add: identify_face_def euclidean_distance_def np_subtract_def np_linalg_norm_def)
  have h2: "identify_face_from_frame example_cv2 (Some [[[0, 0, 51]]]) example_model
              [(''alice'', [0])] (Fin (1 / 2)) 1 = Inr (''alice'', Fin 0, ''MATCH'')"
    by (simp add: identify_face_from_frame_def p2 m2 i2)
  have h3: "preprocess_image example_cv2 None 1 = Inr None"
    by (simp add: preprocess_image_def)
  note t = identify_face_status_consistent[of "[0]" "[(''alice'', [0])]" "Fin (1 / 2)"
      "''alice''" "Fin 0" "''MATCH''" example_cv2 None example_model 1
      "''UNKNOWN''" PosInf "''REJECT''"]
  from t have t1: "identify_face [0] [(''alice'', [0])] (Fin (1 / 2)) = Inr (''alice'', Fin 0, ''MATCH'') \<longrightarrow>
      (''MATCH'' = ''MATCH'' \<or> ''MATCH'' = ''REJECT'')
      \<and> (''alice'' \<noteq> ''UNKNOWN'' \<longrightarrow> ''MATCH'' = ''MATCH'')
      \<and> (''UNKNOWN'' \<notin> fst ` set [(''alice'', [0::real])] \<longrightarrow> (''MATCH'' = ''MATCH'' \<longleftrightarrow> ''alice'' \<noteq> ''UNKNOWN''))
      \<and> (''MATCH'' = ''MATCH'' \<longrightarrow> ''alice'' \<in> fst ` set [(''alice'', [0::real])])"
    by (rule conjunct1)
  from t1 h1 have a: "''alice'' \<in> fst ` set [(''alice'', [0::real])]"
    by simp
  from t have t3: "preprocess_image example_cv2 None 1 = Inr None \<longrightarrow>
      identify_face_from_frame example_cv2 None example_model [(''alice'', [0])] (Fin (1 / 2)) 1
        = Inr (''UNKNOWN'', PosInf, ''REJECT'')"
    by (rule conjunct2[THEN conjunct2])
  from t3 h3 have c: "identify_face_from_frame example_cv2 None example_model [(''alice'', [0])] (Fin (1 / 2)) 1
        = Inr (''UNKNOWN'', PosInf, ''REJECT'')"
    by (rule mp)
  show ?thesis
    by (intro conjI) (rule h1, rule a, rule h2, rule h3, rule c)
qed

subsection \<open>Face detection\<close>

lemma py_max_key_max:
  "py_max_key key best xs \<in> set (best # xs)
   \<and> (\<forall>x \<in> set (best # xs). key x \<le> key (py_max_key key best xs))"
proof (induction xs arbitrary: best)
  case Nil
  then show ?case by simp
next
  case (Cons a xs)
  show ?case
  proof (cases "key best < key a")
    case True
    with Cons.IH[of a] show ?thesis by force
  next
    case False
    with Cons.IH[of best] show ?thesis by force
  qed
qed

lemma sint32_mult_exact:
  assumes "0 \<le> sint (w :: int32)" "0 \<le> sint (h :: int32)" "sint w * sint h < 2 ^ 31"
  shows "sint (w * h) = sint w * sint h"
proof -
  have "sint (w * h) = signed_take_bit (LENGTH(32) - 1) (sint w * sint h)"
    by (rule sint_word_mult)
  also have "\<dots> = sint w * sint h"
  proof (rule signed_take_bit_int_eq_self)
    have "0 \<le> sint w * sint h" using assms(1,2) by simp
    then show "- (2 ^ (LENGTH(32) - 1)) \<le> sint w * sint h" by simp
    show "sint w * sint h < 2 ^ (LENGTH(32) - 1)" using assms(3) by simp
  qed
  finally show ?thesis .
qed

lemma sint32_add_exact:
  assumes "0 \<le> sint (a :: int32)" "0 \<le> sint (b :: int32)" "sint a + sint b < 2 ^ 31"
  shows "sint (a + b) = sint a + sint b"
proof -
  have "sint (a + b) = signed_take_bit (LENGTH(32) - 1) (sint a + sint b)"
    by (rule sint_word_add)
  also have "\<dots> = sint a + sint b"
  proof (rule signed_take_bit_int_eq_self)
    have "0 \<le> sint a + sint b" using assms(1,2) by simp
    then show "- (2 ^ (LENGTH(32) - 1)) \<le> sint a + sint b" by simp
    show "sint a + sint b < 2 ^ (LENGTH(32) - 1)" using assms(3) by simp
  qed
  finally show ?thesis .
qed

lemma py_slice_inside:
  assumes "0 \<le> lo" "0 \<le> n" "lo + n \<le> int (length xs)"
  shows "py_slice lo (lo + n) xs = take (nat n) (drop (nat lo) xs)"
  using assms by (simp add: py_slice_def Let_def min_def max_def)

lemma py_slice_inside_length:
  assumes "0 \<le> lo" "0 \<le> n" "lo + n \<le> int (length xs)"
  shows "length (py_slice lo (lo + n) xs) = nat n"
  using assms by (simp add: py_slice_inside)

lemma py_slice_inside_nth:
  assumes "0 \<le> lo" "0 \<le> n" "lo + n \<le> int (length xs)" "i < nat n"
  shows "py_slice lo (lo + n) xs ! i = xs ! (nat lo + i)"
  using assms by (simp add: py_slice_inside)


lemma crop_frame_is_crop:
  assumes "rect_in_frame frame (x, y, w, h)"
  shows "is_crop_of (crop_frame frame (x, y, w, h)) frame (x, y, w, h)"
proof -
  from assms have x0: "0 \<le> sint x" and y0: "0 \<le> sint y" and w0: "0 \<le> sint w" and h0: "0 \<le> sint h"
    and rows: "sint y + sint h \<le> int (length frame)"
    and cols: "list_all (\<lambda>row. sint x + sint w \<le> int (length row)) frame"
    and xw: "sint x + sint w < 2 ^ 31" and yh: "sint y + sint h < 2 ^ 31"
    by (simp_all add: rect_in_frame_def)
  have sx: "sint (x + w) = sint x + sint w"
    using x0 w0 xw by (rule sint32_add_exact)
  have sy: "sint (y + h) = sint y + sint h"
    using y0 h0 yh by (rule sint32_add_exact)
  let ?rows = "py_slice (sint y) (sint y + sint h) frame"
  have c: "crop_frame frame (x, y, w, h) = map (py_slice (sint x) (sint x + sint w)) ?rows"
    by (simp add: crop_frame_def sx sy)
  have lr: "length ?rows = nat (sint h)"
    using y0 h0 rows by (rule py_slice_inside_length)
  have row: "?rows ! i = frame ! (nat (sint y) + i)" if "i < nat (sint h)" for i
    using y0 h0 rows that by (rule py_slice_inside_nth)
  have inframe: "nat (sint y) + i < length frame" if "i < nat (sint h)" for i
    using that y0 h0 rows by linarith
  have wide: "sint x + sint w \<le> int (length (frame ! (nat (sint y) + i)))" if "i < nat (sint h)" for i
    using cols inframe[OF that] by (simp add: list_all_iff)
  have len_i: "length (crop_frame frame (x, y, w, h) ! i) = nat (sint w)" if "i < nat (sint h)" for i
  proof -
    have "crop_frame frame (x, y, w, h) ! i = py_slice (sint x) (sint x + sint w) (?rows ! i)"
      using that lr by (simp add: c)
    then show ?thesis
      using py_slice_inside_length[OF x0 w0 wide[OF that]] row[OF that] by simp
  qed
  have px: "crop_frame frame (x, y, w, h) ! i ! j = frame ! (nat (sint y) + i) ! (nat (sint x) + j)"
    if "i < nat (sint h)" "j < nat (sint w)" for i j
  proof -
    have "crop_frame frame (x, y, w, h) ! i = py_slice (sint x) (sint x + sint w) (?rows ! i)"
      using that(1) lr by (simp add: c)
    then show ?thesis
      using py_slice_inside_nth[OF x0 w0 wide[OF that(1)] that(2)] row[OF that(1)] by simp
  qed
  have "length (crop_frame frame (x, y, w, h)) = nat (sint h)"
    using lr by (simp add: c)
  then show ?thesis
    using len_i px by (simp add: is_crop_of_def list_all_iff)
qed

lemma rect_area_exact:
  assumes "rect_in_frame frame (x, y, w, h)"
  shows "rect_area (x, y, w, h) = sint w * sint h"
proof -
  from assms have "0 \<le> sint w" "0 \<le> sint h" "sint w * sint h < 2 ^ 31"
    by (simp_all add: rect_in_frame_def)
  then have "sint (w * h) = sint w * sint h"
    by (rule sint32_mult_exact)
  then show ?thesis by (simp add: rect_area_def)
qed

text \<open>
  C3: let the grey conversion of the frame succeed and the cascade report the list
  \<open>faces\<close> of rectangles lying inside the frame. If \<open>faces\<close> is empty,
  \<^verbatim>\<open>detect_and_crop_face\<close> returns \<^verbatim>\<open>(None, None)\<close>. Otherwise there is a reported
  rectangle \<open>(x, y, w, h)\<close> whose area \<open>w * h\<close> is maximal among all reported ones, and the
  crop holding exactly rows \<open>y, ..., y + h - 1\<close> and columns \<open>x, ..., x + w - 1\<close> of the
  frame, such that the function returns the RGB conversion of that crop (not None)
  together with the rectangle whenever that conversion succeeds, and raises its error
  otherwise.
\<close>

theorem detect_and_crop_face_largest:
  assumes "cv_cvtColor cv frame COLOR_BGR2GRAY = Inr gray"
      and "cv_detectMultiScale cv (cascade_path cv p) gray = Inr faces"
      and "list_all (rect_in_frame frame) faces"
  shows "(faces = [] \<longrightarrow> detect_and_crop_face cv frame p = Inr (None, None))
       \<and> (faces \<noteq> [] \<longrightarrow>
            (\<exists>x y w h crop. (x, y, w, h) \<in> set faces
               \<and> list_all (\<lambda>(x', y', w', h'). sint w' * sint h' \<le> sint w * sint h) faces
               \<and> is_crop_of crop frame (x, y, w, h)
               \<and> (\<forall>rgb. cv_cvtColor cv crop COLOR_BGR2RGB = Inr rgb \<longrightarrow>
                     detect_and_crop_face cv frame p = Inr (Some rgb, Some (x, y, w, h)))
               \<and> (\<forall>e. cv_cvtColor cv crop COLOR_BGR2RGB = Inl e \<longrightarrow>
                     detect_and_crop_face cv frame p = Inl e)))"
proof (intro conjI impI)
  assume "faces = []"
  with assms(1,2) show "detect_and_crop_face cv frame p = Inr (None, None)"
    by (simp add: detect_and_crop_face_def)
next
  assume "faces \<noteq> []"
  then obtain f fs where fs: "faces = f # fs" by (cases faces) auto
  define b where "b = py_max_key rect_area f fs"
  obtain x y w h where b: "b = (x, y, w, h)" by (cases b)
  from py_max_key_max[of rect_area f fs]
  have mem: "b \<in> set faces" and mx: "\<forall>r \<in> set faces. rect_area r \<le> rect_area b"
    by (simp_all add: b_def fs)
  have inb: "rect_in_frame frame (x, y, w, h)"
    using assms(3) mem b by (simp add: list_all_iff)
  have big: "list_all (\<lambda>(x', y', w', h'). sint w' * sint h' \<le> sint w * sint h) faces"
    unfolding list_all_iff
  proof (rule ballI)
    fix r assume r: "r \<in> set faces"
    obtain x' y' w' h' where rp: "r = (x', y', w', h')" by (cases r) auto
    from assms(3) r rp have "rect_in_frame frame (x', y', w', h')"
      by (simp add: list_all_iff)
    then have "rect_area r = sint w' * sint h'"
      unfolding rp by (rule rect_area_exact)
    moreover have "rect_area b = sint w * sint h"
      unfolding b using inb by (rule rect_area_exact)
    moreover from mx r have "rect_area r \<le> rect_area b" by blast
    ultimately show "case r of (x', y', w', h') \<Rightarrow> sint w' * sint h' \<le> sint w * sint h"
      by (simp add: rp)
  qed
  define crop where "crop = crop_frame frame (x, y, w, h)"
  have cr: "is_crop_of crop frame (x, y, w, h)"
    unfolding crop_def using inb by (rule crop_frame_is_crop)
  have ok: "detect_and_crop_face cv frame p = Inr (Some rgb, Some (x, y, w, h))"
    if "cv_cvtColor cv crop COLOR_BGR2RGB = Inr rgb" for rgb
    using that assms(1,2) fs b
    by (simp add: detect_and_crop_face_def Let_def b_def[symmetric] crop_def)
  have bad: "detect_and_crop_face cv frame p = Inl e"
    if "cv_cvtColor cv crop COLOR_BGR2RGB = Inl e" for e
    using that assms(1,2) fs b
    by (simp add: detect_and_crop_face_def Let_def b_def[symmetric] crop_def)
  from mem b have m: "(x, y, w, h) \<in> set faces" by simp
  show "\<exists>x y w h crop. (x, y, w, h) \<in> set faces
               \<and> list_all (\<lambda>(x', y', w', h'). sint w' * sint h' \<le> sint w * sint h) faces
               \<and> is_crop_of crop frame (x, y, w, h)
               \<and> (\<forall>rgb. cv_cvtColor cv crop COLOR_BGR2RGB = Inr rgb \<longrightarrow>
                     detect_and_crop_face cv frame p = Inr (Some rgb, Some (x, y, w, h)))
               \<and> (\<forall>e. cv_cvtColor cv crop COLOR_BGR2RGB = Inl e \<longrightarrow>
                     detect_and_crop_face cv frame p = Inl e)"
    using m big cr ok bad by (intro exI[of _ x] exI[of _ y] exI[of _ w] exI[of _ h] exI[of _ crop]) simp
qed

theorem detect_and_crop_face_largest_witness:
  "cv_cvtColor example_cv2 [[[1], [2], [3]], [[4], [5], [6]], [[7], [8], [9]]] COLOR_BGR2GRAY
     = Inr [[[1], [2], [3]], [[4], [5], [6]], [[7], [8], [9]]]
   \<and> cv_detectMultiScale example_cv2 (cascade_path example_cv2 None)
        [[[1], [2], [3]], [[4], [5], [6]], [[7], [8], [9]]]
     = Inr [(0, 0, 1, 1), (1, 0, 2, 2), (0, 1, 2, 2)]
   \<and> list_all (rect_in_frame [[[1], [2], [3]], [[4], [5], [6]], [[7], [8], [9 :: uint8]]])
        [(0, 0, 1, 1), (1, 0, 2, 2), (0, 1, 2, 2)]
   \<and> (\<exists>x y w h crop. (x, y, w, h) \<in> set ([(0, 0, 1, 1), (1, 0, 2, 2), (0, 1, 2, 2)] :: rect list)
        \<and> list_all (\<lambda>(x', y', w', h'). sint w' * sint h' \<le> sint w * sint h)
             ([(0, 0, 1, 1), (1, 0, 2, 2), (0, 1, 2, 2)] :: rect list)
        \<and> is_crop_of crop [[[1], [2], [3]], [[4], [5], [6]], [[7], [8], [9 :: uint8]]] (x, y, w, h))
   \<and> detect_and_crop_face example_cv2 [[[1], [2], [3]], [[4], [5], [6]], [[7], [8], [9]]] None
     = Inr (Some [[[2], [3]], [[5], [6]]], Some (1, 0, 2, 2))"
proof -
  let ?frame = "[[[1], [2], [3]], [[4], [5], [6]], [[7], [8], [9 :: uint8]]]"
  let ?faces = "[(0, 0, 1, 1), (1, 0, 2, 2), (0, 1, 2, 2)] :: rect list"
  have h: "cv_cvtColor example_cv2 ?frame COLOR_BGR2GRAY = Inr ?frame"
    by (simp add: example_cv2_def)
  have f: "cv_detectMultiScale example_cv2 (cascade_path example_cv2 None) ?frame = Inr ?faces"
    by (simp add: example_cv2_def cascade_path_def)
  have i: "list_all (rect_in_frame ?frame) ?faces"
    by (simp add: rect_in_frame_def)
  have ne: "?faces \<noteq> []" by simp
  from detect_and_crop_face_largest[OF h f i, THEN conjunct2, THEN mp, OF ne]
  obtain x y w h crop where
    "(x, y, w, h) \<in> set ?faces"
    "list_all (\<lambda>(x', y', w', h'). sint w' * sint h' \<le> sint w * sint h) ?faces"
    "is_crop_of crop ?frame (x, y, w, h)"
    by blast
  then have ex: "\<exists>x y w h crop. (x, y, w, h) \<in> set ?faces
        \<and> list_all (\<lambda>(x', y', w', h'). sint w' * sint h' \<le> sint w * sint h) ?faces
        \<and> is_crop_of crop ?frame (x, y, w, h)"
    by blast
  have a1: "rect_area (0, 0, 1, 1) = 1" and a2: "rect_area (1, 0, 2, 2) = 4"
    and a3: "rect_area (0, 1, 2, 2) = 4"
    by (simp_all add: rect_area_def)
  have mk: "py_max_key rect_area (0, 0, 1, 1) [(1, 0, 2, 2), (0, 1, 2, 2)] = (1, 0, 2, 2)"
    by (simp add: a1 a2 a3)
  have cr: "crop_frame ?frame (1, 0, 2, 2) = [[[2], [3]], [[5], [6]]]"
    by (simp add: crop_frame_def py_slice_def)
  have cv: "cv_cvtColor example_cv2 [[[2], [3]], [[5], [6]]] COLOR_BGR2RGB = Inr [[[2], [3]], [[5], [6]]]"
    by (simp add: example_cv2_def)
  have v: "detect_and_crop_face example_cv2 ?frame None
     = Inr (Some [[[2], [3]], [[5], [6]]], Some (1, 0, 2, 2))"
    unfolding detect_and_crop_face_def by (simp add: h f a1 a2 a3 cr cv Let_def)
  show ?thesis
    by (intro conjI) (rule h, rule f, rule i, rule ex, rule v)
qed

subsection \<open>Building the gallery\<close>

lemma foldl_vec_add_length:
  "list_all (\<lambda>x. length x = length (e :: embedding)) es \<Longrightarrow>
     length (foldl (\<lambda>acc x. map (\<lambda>(a, b). a + b) (zip acc x)) e es) = length e"
  by (induction es arbitrary: e) (auto simp: list_all_iff)

lemma foldl_vec_add_nth:
  "list_all (\<lambda>x. length x = length (e :: embedding)) es \<Longrightarrow> i < length e \<Longrightarrow>
     foldl (\<lambda>acc x. map (\<lambda>(a, b). a + b) (zip acc x)) e es ! i
       = e ! i + sum_list (map (\<lambda>x. x ! i) es)"
proof (induction es arbitrary: e)
  case Nil
  then show ?case by simp
next
  case (Cons a es)
  let ?e' = "map (\<lambda>(a, b). a + b) (zip e a)"
  from Cons.prems have la: "length a = length e" and rest: "list_all (\<lambda>x. length x = length e) es"
    by simp_all
  have le': "length ?e' = length e" using la by simp
  have "list_all (\<lambda>x. length x = length ?e') es" using rest le' by simp
  moreover have "i < length ?e'" using Cons.prems(2) le' by simp
  ultimately have "foldl (\<lambda>acc x. map (\<lambda>(a, b). a + b) (zip acc x)) ?e' es ! i
       = ?e' ! i + sum_list (map (\<lambda>x. x ! i) es)"
    by (rule Cons.IH)
  moreover have "?e' ! i = e ! i + a ! i"
    using Cons.prems(2) la by simp
  ultimately show ?case by simp
qed

lemma np_mean_axis0_is_mean:
  assumes "list_all (\<lambda>x. length x = length e) es"
  shows "\<exists>avg. np_mean_axis0 e es = Inr avg \<and> is_mean_of avg (e # es)"
proof -
  let ?s = "foldl (\<lambda>acc x. map (\<lambda>(a, b). a + b) (zip acc x)) e es"
  let ?avg = "map (\<lambda>s. s / real (length (e # es))) ?s"
  have r: "np_mean_axis0 e es = Inr ?avg"
    using assms by (simp add: np_mean_axis0_def)
  have len: "length ?avg = length e"
    using foldl_vec_add_length[OF assms] by simp
  have comp: "?avg ! i = sum_list (map (\<lambda>x. x ! i) (e # es)) / real (length (e # es))"
    if "i < length e" for i
  proof -
    have "?avg ! i = ?s ! i / real (length (e # es))"
      using that foldl_vec_add_length[OF assms] by simp
    also have "?s ! i = e ! i + sum_list (map (\<lambda>x. x ! i) es)"
      using assms that by (rule foldl_vec_add_nth)
    finally show ?thesis by simp
  qed
  have "list_all (\<lambda>x. length x = length ?avg) (e # es)"
    using assms len by (simp add: list_all_iff)
  moreover have "list_all (\<lambda>i. ?avg ! i = sum_list (map (\<lambda>x. x ! i) (e # es)) / real (length (e # es)))
           [0..<length ?avg]"
    unfolding list_all_iff using comp len by simp
  ultimately have "is_mean_of ?avg (e # es)"
    unfolding is_mean_of_def by blast
  with r show ?thesis by blast
qed

lemma map_of_dict_set: "map_of (dict_set d k v) = (map_of d)(k \<mapsto> v)"
  by (induction d) (auto simp: fun_eq_iff)

lemma dict_set_keys: "fst ` set (dict_set d k v) = insert k (fst ` set d)"
proof (induction d)
  case Nil
  then show ?case by simp
next
  case (Cons a d)
  obtain k' v' where a: "a = (k', v')" by (cases a)
  show ?case
  proof (cases "k' = k")
    case True
    then show ?thesis by (simp add: a)
  next
    case False
    then have "fst ` set (dict_set (a # d) k v) = insert k' (fst ` set (dict_set d k v))"
      by (simp add: a)
    also have "\<dots> = insert k' (insert k (fst ` set d))"
      by (simp only: Cons.IH)
    finally show ?thesis by (simp add: a insert_commute)
  qed
qed

lemma dict_set_distinct:
  assumes "distinct (map fst d)"
  shows "distinct (map fst (dict_set d k v))"
  using assms
proof (induction d)
  case Nil
  then show ?case by simp
next
  case (Cons a d)
  obtain k' v' where a: "a = (k', v')" by (cases a)
  from Cons.prems a have fresh: "k' \<notin> fst ` set d" and dd: "distinct (map fst d)"
    by auto
  show ?case
  proof (cases "k' = k")
    case True
    with fresh dd a show ?thesis by simp
  next
    case False
    have "k' \<notin> fst ` set (dict_set d k v)"
      using fresh False by (simp add: dict_set_keys)
    moreover have "distinct (map fst (dict_set d k v))"
      using dd by (rule Cons.IH)
    ultimately show ?thesis
      using False a by simp
  qed
qed

lemma np_mean_axis0_Inr:
  assumes "np_mean_axis0 e es = Inr avg"
  shows "is_mean_of avg (e # es)"
proof -
  have c: "list_all (\<lambda>x. length x = length e) es"
    using assms by (simp add: np_mean_axis0_def split: if_splits)
  from np_mean_axis0_is_mean[OF c] assms show ?thesis by auto
qed

lemma loadable_images_Cons:
  "loadable_images cv n (p # ps) =
     (case load_image cv p n of None \<Rightarrow> loadable_images cv n ps
      | Some img \<Rightarrow> img # loadable_images cv n ps)"
  by (simp add: loadable_images_def List.map_filter_simps split: option.splits)

lemma loadable_images_Nil: "loadable_images cv n [] = []"
  by (simp add: loadable_images_def List.map_filter_simps)

lemma collect_embeddings_Inr:
  "collect_embeddings cv model n paths = Inr es \<Longrightarrow>
     es = embeddings_of model (loadable_images cv n paths)"
proof (induction paths arbitrary: es)
  case Nil
  then show ?case by (simp add: loadable_images_Nil embeddings_of_def)
next
  case (Cons p ps)
  show ?case
  proof (cases "load_image cv p n")
    case None
    with Cons.prems have "collect_embeddings cv model n ps = Inr es" by simp
    from Cons.IH[OF this] None show ?thesis by (simp add: loadable_images_Cons)
  next
    case (Some img)
    with Cons.prems obtain v vs where v: "model img = Inr v"
      and vs: "collect_embeddings cv model n ps = Inr vs" and es: "es = v # vs"
      by (auto split: sum.splits)
    from Cons.IH[OF vs] Some v es show ?thesis
      by (simp add: loadable_images_Cons embeddings_of_def)
  qed
qed

lemma collect_embeddings_length:
  "collect_embeddings cv model n paths = Inr es \<Longrightarrow>
     length es = length (loadable_images cv n paths)"
proof (induction paths arbitrary: es)
  case Nil
  then show ?case by (simp add: loadable_images_Nil)
next
  case (Cons p ps)
  show ?case
  proof (cases "load_image cv p n")
    case None
    with Cons.prems have "collect_embeddings cv model n ps = Inr es" by simp
    from Cons.IH[OF this] None show ?thesis by (simp add: loadable_images_Cons)
  next
    case (Some img)
    with Cons.prems obtain v vs where v: "model img = Inr v"
      and vs: "collect_embeddings cv model n ps = Inr vs" and es: "es = v # vs"
      by (auto split: sum.splits)
    from Cons.IH[OF vs] have "length vs = length (loadable_images cv n ps)" .
    with Some es show ?thesis
      by (simp add: loadable_images_Cons)
  qed
qed

lemma collect_embeddings_total:
  "embeds cv model n m paths \<Longrightarrow>
     \<exists>es. collect_embeddings cv model n paths = Inr es \<and> list_all (\<lambda>e. length e = m) es"
proof (induction paths)
  case Nil
  then show ?case by simp
next
  case (Cons p ps)
  show ?case
  proof (cases "load_image cv p n")
    case None
    with Cons.prems have "embeds cv model n m ps"
      by (simp add: embeds_def loadable_images_Cons)
    from Cons.IH[OF this] None show ?thesis by simp
  next
    case (Some img)
    with Cons.prems have rest: "embeds cv model n m ps"
      and here: "case model img of Inl e \<Rightarrow> False | Inr v \<Rightarrow> length v = m"
      by (simp_all add: embeds_def loadable_images_Cons)
    from here obtain v where v: "model img = Inr v" "length v = m"
      by (cases "model img") auto
    from Cons.IH[OF rest] obtain vs where
      "collect_embeddings cv model n ps = Inr vs" "list_all (\<lambda>e. length e = m) vs"
      by blast
    with v Some show ?thesis by simp
  qed
qed

lemma build_gallery_loop_total:
  assumes "list_all (\<lambda>(pid, paths). embeds cv model n m paths) items"
  shows "\<exists>g'. build_gallery_loop cv model n items g = Inr g'"
  using assms
proof (induction items arbitrary: g)
  case Nil
  then show ?case by simp
next
  case (Cons a items)
  obtain pid paths where a: "a = (pid, paths)" by (cases a)
  from Cons.prems a have here: "embeds cv model n m paths"
    and rest: "list_all (\<lambda>(pid, paths). embeds cv model n m paths) items"
    by simp_all
  from collect_embeddings_total[OF here] obtain es where
    c: "collect_embeddings cv model n paths = Inr es" and dims: "list_all (\<lambda>e. length e = m) es"
    by blast
  show ?case
  proof (cases es)
    case Nil
    with Cons.IH[OF rest, of g] a c show ?thesis by simp
  next
    case (Cons e es')
    with dims have "list_all (\<lambda>x. length x = length e) es'"
      by (simp add: list_all_iff)
    from np_mean_axis0_is_mean[OF this] obtain avg where "np_mean_axis0 e es' = Inr avg"
      by blast
    with Cons.IH[OF rest, of "dict_set g pid avg"] Cons a c show ?thesis by simp
  qed
qed

lemma build_gallery_loop_step:
  assumes "build_gallery_loop cv model n ((k, ps) # items) g = Inr g'"
  shows "(collect_embeddings cv model n ps = Inr []
            \<and> build_gallery_loop cv model n items g = Inr g')
       \<or> (\<exists>e es avg. collect_embeddings cv model n ps = Inr (e # es)
            \<and> np_mean_axis0 e es = Inr avg
            \<and> build_gallery_loop cv model n items (dict_set g k avg) = Inr g')"
  using assms by (auto split: sum.splits list.splits)

lemma build_gallery_loop_outside:
  "build_gallery_loop cv model n items g = Inr g' \<Longrightarrow> pid \<notin> fst ` set items \<Longrightarrow>
     map_of g' pid = map_of g pid"
proof (induction items arbitrary: g)
  case Nil
  then show ?case by simp
next
  case (Cons a items)
  obtain k ps where a: "a = (k, ps)" by (cases a)
  from Cons.prems(2) a have ne: "k \<noteq> pid" and out: "pid \<notin> fst ` set items" by auto
  from Cons.prems(1) have "build_gallery_loop cv model n ((k, ps) # items) g = Inr g'"
    by (simp only: a)
  from build_gallery_loop_step[OF this] show ?case
  proof
    assume "collect_embeddings cv model n ps = Inr []
            \<and> build_gallery_loop cv model n items g = Inr g'"
    then have "build_gallery_loop cv model n items g = Inr g'" ..
    from Cons.IH[OF this out] show ?thesis .
  next
    assume "\<exists>e es avg. collect_embeddings cv model n ps = Inr (e # es)
            \<and> np_mean_axis0 e es = Inr avg
            \<and> build_gallery_loop cv model n items (dict_set g k avg) = Inr g'"
    then obtain avg where "build_gallery_loop cv model n items (dict_set g k avg) = Inr g'"
      by blast
    from Cons.IH[OF this out] ne show ?thesis by (simp add: map_of_dict_set)
  qed
qed

lemma build_gallery_loop_distinct:
  "build_gallery_loop cv model n items g = Inr g' \<Longrightarrow> distinct (map fst g) \<Longrightarrow>
     distinct (map fst g')"
proof (induction items arbitrary: g)
  case Nil
  then show ?case by simp
next
  case (Cons a items)
  obtain k ps where a: "a = (k, ps)" by (cases a)
  from Cons.prems(1) have "build_gallery_loop cv model n ((k, ps) # items) g = Inr g'"
    by (simp only: a)
  from build_gallery_loop_step[OF this] show ?case
  proof
    assume "collect_embeddings cv model n ps = Inr []
            \<and> build_gallery_loop cv model n items g = Inr g'"
    then have "build_gallery_loop cv model n items g = Inr g'" ..
    from Cons.IH[OF this Cons.prems(2)] show ?thesis .
  next
    assume "\<exists>e es avg. collect_embeddings cv model n ps = Inr (e # es)
            \<and> np_mean_axis0 e es = Inr avg
            \<and> build_gallery_loop cv model n items (dict_set g k avg) = Inr g'"
    then obtain avg where r: "build_gallery_loop cv model n items (dict_set g k avg) = Inr g'"
      by blast
    from Cons.IH[OF r dict_set_distinct[OF Cons.prems(2)]] show ?thesis .
  qed
qed

lemma build_gallery_loop_entry:
  "build_gallery_loop cv model n items g = Inr g' \<Longrightarrow> distinct (map fst items) \<Longrightarrow>
   (pid, paths) \<in> set items \<Longrightarrow>
     (\<exists>es. collect_embeddings cv model n paths = Inr es
        \<and> (es = [] \<longrightarrow> map_of g' pid = map_of g pid)
        \<and> (es \<noteq> [] \<longrightarrow> (\<exists>avg. map_of g' pid = Some avg \<and> is_mean_of avg es)))"
proof (induction items arbitrary: g)
  case Nil
  then show ?case by simp
next
  case (Cons a items)
  obtain k ps where a: "a = (k, ps)" by (cases a)
  from Cons.prems(2) a have fresh: "k \<notin> fst ` set items" and d': "distinct (map fst items)"
    by auto
  from Cons.prems(1) have run: "build_gallery_loop cv model n ((k, ps) # items) g = Inr g'"
    by (simp only: a)
  show ?case
  proof (cases "(pid, paths) = a")
    case True
    then have kp: "k = pid" "ps = paths" using a by auto
    from build_gallery_loop_step[OF run] show ?thesis
    proof
      assume "collect_embeddings cv model n ps = Inr []
            \<and> build_gallery_loop cv model n items g = Inr g'"
      then have c: "collect_embeddings cv model n paths = Inr []"
        and r: "build_gallery_loop cv model n items g = Inr g'"
        using kp by simp_all
      from build_gallery_loop_outside[OF r] fresh kp have "map_of g' pid = map_of g pid"
        by simp
      with c show ?thesis by simp
    next
      assume "\<exists>e es avg. collect_embeddings cv model n ps = Inr (e # es)
            \<and> np_mean_axis0 e es = Inr avg
            \<and> build_gallery_loop cv model n items (dict_set g k avg) = Inr g'"
      then obtain e es avg where c: "collect_embeddings cv model n paths = Inr (e # es)"
        and m: "np_mean_axis0 e es = Inr avg"
        and r: "build_gallery_loop cv model n items (dict_set g pid avg) = Inr g'"
        using kp by auto
      from build_gallery_loop_outside[OF r] fresh kp
      have "map_of g' pid = Some avg" by (simp add: map_of_dict_set)
      with np_mean_axis0_Inr[OF m] c show ?thesis by simp
    qed
  next
    case False
    with Cons.prems(3) have mem: "(pid, paths) \<in> set items" by simp
    with fresh have ne: "k \<noteq> pid" by force
    from build_gallery_loop_step[OF run] show ?thesis
    proof
      assume "collect_embeddings cv model n ps = Inr []
            \<and> build_gallery_loop cv model n items g = Inr g'"
      then have "build_gallery_loop cv model n items g = Inr g'" ..
      from Cons.IH[OF this d' mem] show ?thesis .
    next
      assume "\<exists>e es avg. collect_embeddings cv model n ps = Inr (e # es)
            \<and> np_mean_axis0 e es = Inr avg
            \<and> build_gallery_loop cv model n items (dict_set g k avg) = Inr g'"
      then obtain avg where r: "build_gallery_loop cv model n items (dict_set g k avg) = Inr g'"
        by blast
      have eq: "map_of (dict_set g k avg) pid = map_of g pid"
        using ne by (simp add: map_of_dict_set)
      from Cons.IH[OF r d' mem] show ?thesis
        unfolding eq .
    qed
  qed
qed

text \<open>
  C2: for a dictionary with distinct person ids, on whose loadable images the network
  returns embeddings of one dimension, \<^verbatim>\<open>build_gallery_embeddings\<close> returns a gallery
  with distinct keys in which every person id with at least one loadable image is mapped
  to the component-wise arithmetic mean of the embeddings of that person's loadable
  images, every person id whose images all fail to load is absent, and so is every id
  that is not a key of the input.
\<close>

theorem build_gallery_embeddings_mean:
  assumes "distinct (map fst d)"
      and "list_all (\<lambda>(pid, paths). embeds cv model n m paths) d"
  shows "\<exists>g. build_gallery_embeddings cv model d n = Inr g
           \<and> distinct (map fst g)
           \<and> (\<forall>pid. pid \<notin> fst ` set d \<longrightarrow> map_of g pid = None)
           \<and> list_all (\<lambda>(pid, paths).
                 if loadable_images cv n paths = [] then map_of g pid = None
                 else (\<exists>avg. map_of g pid = Some avg
                         \<and> is_mean_of avg (embeddings_of model (loadable_images cv n paths)))) d"
proof -
  from build_gallery_loop_total[OF assms(2), of "[]"] obtain g where
    r: "build_gallery_loop cv model n d [] = Inr g" ..
  have dd: "distinct (map fst g)"
    using build_gallery_loop_distinct[OF r] by simp
  have out: "\<forall>pid. pid \<notin> fst ` set d \<longrightarrow> map_of g pid = None"
    using build_gallery_loop_outside[OF r] by simp
  have ins: "list_all (\<lambda>(pid, paths).
                 if loadable_images cv n paths = [] then map_of g pid = None
                 else (\<exists>avg. map_of g pid = Some avg
                         \<and> is_mean_of avg (embeddings_of model (loadable_images cv n paths)))) d"
    unfolding list_all_iff
  proof (rule ballI)
    fix x assume x: "x \<in> set d"
    obtain pid paths where xp: "x = (pid, paths)" by (cases x)
    from x xp have mem: "(pid, paths) \<in> set d" by simp
    from build_gallery_loop_entry[OF r assms(1) mem] obtain es where
      c: "collect_embeddings cv model n paths = Inr es"
      and e0: "es = [] \<longrightarrow> map_of g pid = map_of [] pid"
      and e1: "es \<noteq> [] \<longrightarrow> (\<exists>avg. map_of g pid = Some avg \<and> is_mean_of avg es)"
      by blast
    have es: "es = embeddings_of model (loadable_images cv n paths)"
      using c by (rule collect_embeddings_Inr)
    have len: "length es = length (loadable_images cv n paths)"
      using c by (rule collect_embeddings_length)
    from len have emp: "(loadable_images cv n paths = []) = (es = [])"
      by auto
    have "if loadable_images cv n paths = [] then map_of g pid = None
                 else (\<exists>avg. map_of g pid = Some avg
                         \<and> is_mean_of avg (embeddings_of model (loadable_images cv n paths)))"
    proof (cases "es = []")
      case True
      with e0 emp show ?thesis by simp
    next
      case False
      with e1 emp es show ?thesis by simp
    qed
    then show "case x of (pid, paths) \<Rightarrow>
                 if loadable_images cv n paths = [] then map_of g pid = None
                 else (\<exists>avg. map_of g pid = Some avg
                         \<and> is_mean_of avg (embeddings_of model (loadable_images cv n paths)))"
      unfolding xp by simp
  qed
  have "build_gallery_embeddings cv model d n = Inr g"
    using r by (simp add: build_gallery_embeddings_def)
  with dd out ins show ?thesis by blast
qed

theorem build_gallery_embeddings_mean_witness:
  "distinct (map fst [(''alice'', [''ref/alice__1.jpg'', ''ref/missing.jpg'', ''ref/alice__2.jpg'']),
                      (''bob'', [''ref/bob.jpg''])])
   \<and> list_all (\<lambda>(pid, paths). embeds example_cv2 example_model 1 2 paths)
        [(''alice'', [''ref/alice__1.jpg'', ''ref/missing.jpg'', ''ref/alice__2.jpg'']),
         (''bob'', [''ref/bob.jpg''])]
   \<and> (\<exists>g. build_gallery_embeddings example_cv2 example_model
              [(''alice'', [''ref/alice__1.jpg'', ''ref/missing.jpg'', ''ref/alice__2.jpg'']),
               (''bob'', [''ref/bob.jpg''])] 1 = Inr g
          \<and> distinct (map fst g))
   \<and> build_gallery_embeddings example_cv2 example_model
        [(''alice'', [''ref/alice__1.jpg'', ''ref/missing.jpg'', ''ref/alice__2.jpg'']),
         (''bob'', [''ref/bob.jpg''])] 1 = Inr [(''alice'', [1, 2 / 5])]
   \<and> is_mean_of [1, 2 / 5] [[1, 1 / 5], [1, 3 / 5]]"
proof -
  let ?d = "[(''alice'', [''ref/alice__1.jpg'', ''ref/missing.jpg'', ''ref/alice__2.jpg'']),
             (''bob'', [''ref/bob.jpg''])]"
  have la1: "load_image example_cv2 ''ref/alice__1.jpg'' 1 = Some [[[1, 1 / 5, 0]]]"
    by (simp add: load_image_def preprocess_image_def example_cv2_def normalize255_def)
  have la2: "load_image example_cv2 ''ref/alice__2.jpg'' 1 = Some [[[1, 3 / 5, 0]]]"
    by (simp add: load_image_def preprocess_image_def example_cv2_def normalize255_def)
  have lm: "load_image example_cv2 ''ref/missing.jpg'' 1 = None"
    by (simp add: load_image_def example_cv2_def)
  have lb: "load_image example_cv2 ''ref/bob.jpg'' 1 = None"
    by (simp add: load_image_def example_cv2_def)
  have m1: "example_model [[[1, 1 / 5, 0]]] = Inr [1, 1 / 5]"
    by (simp add: example_model_def)
  have m2: "example_model [[[1, 3 / 5, 0]]] = Inr [1, 3 / 5]"
    by (simp add: example_model_def)
  have h1: "distinct (map fst ?d)" by simp
  have ia: "loadable_images example_cv2 1 [''ref/alice__1.jpg'', ''ref/missing.jpg'', ''ref/alice__2.jpg'']
      = [[[[1, 1 / 5, 0]]], [[[1, 3 / 5, 0]]]]"
    by (simp add: loadable_images_Cons loadable_images_Nil la1 la2 lm)
  have ib: "loadable_images example_cv2 1 [''ref/bob.jpg''] = []"
    by (simp add: loadable_images_Cons loadable_images_Nil lb)
  have h2: "list_all (\<lambda>(pid, paths). embeds example_cv2 example_model 1 2 paths) ?d"
    by (simp add: embeds_def ia ib m1 m2)
  have ca: "collect_embeddings example_cv2 example_model 1
              [''ref/alice__1.jpg'', ''ref/missing.jpg'', ''ref/alice__2.jpg''] = Inr [[1, 1 / 5], [1, 3 / 5]]"
    by (simp add: la1 la2 lm m1 m2)
  have cb: "collect_embeddings example_cv2 example_model 1 [''ref/bob.jpg''] = Inr []"
    by (simp add: lb)
  have mean: "np_mean_axis0 [1, 1 / 5] [[1, 3 / 5]] = Inr [1, 2 / 5]"
    by (simp add: np_mean_axis0_def)
  have v: "build_gallery_embeddings example_cv2 example_model ?d 1 = Inr [(''alice'', [1, 2 / 5])]"
    by (simp add: build_gallery_embeddings_def ca cb mean del: collect_embeddings.simps)
  have im: "is_mean_of [1, 2 / 5] [[1, 1 / 5], [1, 3 / 5]]"
    by (simp add: is_mean_of_def)
  from build_gallery_embeddings_mean[OF h1 h2]
  have ex: "\<exists>g. build_gallery_embeddings example_cv2 example_model ?d 1 = Inr g
          \<and> distinct (map fst g)"
    by blast
  show ?thesis
    by (intro conjI) (rule h1, rule h2, rule ex, rule v, rule im)
qed

subsection \<open>Opening the camera\<close>

lemma initialize_camera_loop_calls:
  "calls s \<le> calls (snd (initialize_camera_loop cam i xs s))
   \<and> calls (snd (initialize_camera_loop cam i xs s)) \<le> calls s + length xs"
proof (induction xs arbitrary: s)
  case Nil
  then show ?case by simp
next
  case (Cons a xs)
  show ?case
  proof (cases "cam i (calls s)")
    case True
    then show ?thesis by (simp add: VideoCapture_def Let_def)
  next
    case False
    let ?s = "s\<lparr>calls := calls s + 1, sleeps := sleeps s + 1\<rparr>"
    from False have "initialize_camera_loop cam i (a # xs) s = initialize_camera_loop cam i xs ?s"
      by (simp add: VideoCapture_def Let_def)
    with Cons.IH[of ?s] show ?thesis by simp
  qed
qed

lemma initialize_camera_loop_first_success:
  assumes "k < length xs" "cam i (calls s + k)" "\<forall>j<k. \<not> cam i (calls s + j)"
  shows "initialize_camera_loop cam i xs s
       = (Inr (configure (VideoCapture cam i (calls s + k))),
          s\<lparr>calls := calls s + k + 1, sleeps := sleeps s + k\<rparr>)"
  using assms
proof (induction xs arbitrary: s k)
  case Nil
  then show ?case by simp
next
  case (Cons a xs)
  show ?case
  proof (cases k)
    case 0
    with Cons.prems show ?thesis by (simp add: VideoCapture_def Let_def)
  next
    case (Suc k')
    let ?s = "s\<lparr>calls := calls s + 1, sleeps := sleeps s + 1\<rparr>"
    from Cons.prems(3) Suc have f0: "\<not> cam i (calls s)" by force
    then have step: "initialize_camera_loop cam i (a # xs) s = initialize_camera_loop cam i xs ?s"
      by (simp add: VideoCapture_def Let_def)
    have 1: "k' < length xs" using Cons.prems(1) Suc by simp
    have 2: "cam i (calls ?s + k')" using Cons.prems(2) Suc by simp
    have 3: "\<forall>j<k'. \<not> cam i (calls ?s + j)"
    proof (intro allI impI)
      fix j assume "j < k'"
      then have "Suc j < k" using Suc by simp
      with Cons.prems(3) have "\<not> cam i (calls s + Suc j)" by blast
      then show "\<not> cam i (calls ?s + j)" by simp
    qed
    from Cons.IH[OF 1 2 3] step Suc show ?thesis by simp
  qed
qed

lemma initialize_camera_loop_all_fail:
  assumes "\<forall>j<length xs. \<not> cam i (calls s + j)"
  shows "initialize_camera_loop cam i xs s
       = (Inl (SystemExit 1), s\<lparr>calls := calls s + length xs, sleeps := sleeps s + length xs\<rparr>)"
  using assms
proof (induction xs arbitrary: s)
  case Nil
  then show ?case by simp
next
  case (Cons a xs)
  let ?s = "s\<lparr>calls := calls s + 1, sleeps := sleeps s + 1\<rparr>"
  from Cons.prems have f0: "\<not> cam i (calls s)" by force
  then have step: "initialize_camera_loop cam i (a # xs) s = initialize_camera_loop cam i xs ?s"
    by (simp add: VideoCapture_def Let_def)
  have "\<forall>j<length xs. \<not> cam i (calls ?s + j)"
  proof (intro allI impI)
    fix j assume "j < length xs"
    then have "Suc j < length (a # xs)" by simp
    with Cons.prems have "\<not> cam i (calls s + Suc j)" by blast
    then show "\<not> cam i (calls ?s + j)" by simp
  qed
  from Cons.IH[OF this] step show ?case by simp
qed

text \<open>
  C4: \<^verbatim>\<open>initialize_camera\<close> calls \<^verbatim>\<open>VideoCapture\<close> at most \<^verbatim>\<open>max_retries\<close> times (5 by
  default). If the \<open>k\<close>-th attempt is the first that opens, it returns the handle of that
  attempt, opened and configured, after \<open>k + 1\<close> calls. If none of the \<^verbatim>\<open>max_retries\<close>
  attempts opens, the process exits with status 1 after exactly that many calls. The loop
  is a structural recursion over \<^verbatim>\<open>range(max_retries)\<close>, so it always ends.
\<close>

theorem initialize_camera_bounded:
  "calls s \<le> calls (snd (initialize_camera cam i max_retries s))
   \<and> calls (snd (initialize_camera cam i max_retries s)) \<le> calls s + retries max_retries
   \<and> retries None = 5
   \<and> (\<forall>k < retries max_retries.
         cam i (calls s + k) \<and> (\<forall>j<k. \<not> cam i (calls s + j)) \<longrightarrow>
           initialize_camera cam i max_retries s
             = (Inr (configure (VideoCapture cam i (calls s + k))),
                s\<lparr>calls := calls s + k + 1, sleeps := sleeps s + k\<rparr>)
           \<and> cap_opened (configure (VideoCapture cam i (calls s + k))))
   \<and> ((\<forall>k < retries max_retries. \<not> cam i (calls s + k)) \<longrightarrow>
         initialize_camera cam i max_retries s
           = (Inl (SystemExit 1),
              s\<lparr>calls := calls s + retries max_retries,
                sleeps := sleeps s + retries max_retries\<rparr>))"
proof -
  let ?xs = "py_range (case max_retries of None \<Rightarrow> 5 | Some m \<Rightarrow> m)"
  have len: "length ?xs = retries max_retries"
    by (simp add: py_range_def retries_def)
  have a: "calls s \<le> calls (snd (initialize_camera cam i max_retries s))
     \<and> calls (snd (initialize_camera cam i max_retries s)) \<le> calls s + retries max_retries"
    using initialize_camera_loop_calls[of s cam i ?xs] len
    by (simp add: initialize_camera_def)
  have b: "retries None = 5" by (simp add: retries_def)
  have c: "initialize_camera cam i max_retries s
             = (Inr (configure (VideoCapture cam i (calls s + k))),
                s\<lparr>calls := calls s + k + 1, sleeps := sleeps s + k\<rparr>)
           \<and> cap_opened (configure (VideoCapture cam i (calls s + k)))"
    if "k < retries max_retries" "cam i (calls s + k)" "\<forall>j<k. \<not> cam i (calls s + j)" for k
  proof -
    from that(1) len have kl: "k < length ?xs" by simp
    have "initialize_camera_loop cam i ?xs s
             = (Inr (configure (VideoCapture cam i (calls s + k))),
                s\<lparr>calls := calls s + k + 1, sleeps := sleeps s + k\<rparr>)"
      using kl that(2,3)
      by (rule initialize_camera_loop_first_success[where k = k and cam = cam and i = i and s = s])
    then have "initialize_camera cam i max_retries s
             = (Inr (configure (VideoCapture cam i (calls s + k))),
                s\<lparr>calls := calls s + k + 1, sleeps := sleeps s + k\<rparr>)"
      by (simp add: initialize_camera_def)
    moreover have "cap_opened (configure (VideoCapture cam i (calls s + k)))"
      using that(2) by (simp add: configure_def cap_set_def VideoCapture_def)
    ultimately show ?thesis ..
  qed
  have d: "initialize_camera cam i max_retries s
           = (Inl (SystemExit 1),
              s\<lparr>calls := calls s + retries max_retries,
                sleeps := sleeps s + retries max_retries\<rparr>)"
    if "\<forall>k < retries max_retries. \<not> cam i (calls s + k)"
  proof -
    from that len have af: "\<forall>j<length ?xs. \<not> cam i (calls s + j)" by simp
    have "initialize_camera_loop cam i ?xs s
       = (Inl (SystemExit 1), s\<lparr>calls := calls s + length ?xs, sleeps := sleeps s + length ?xs\<rparr>)"
      using af by (rule initialize_camera_loop_all_fail[where cam = cam and i = i and s = s])
    then show ?thesis
      by (simp only: len initialize_camera_def)
  qed
  from a b c d show ?thesis by blast
qed

theorem initialize_camera_bounded_witness:
  "initialize_camera example_camera 0 None \<lparr>calls = 0, sleeps = 0\<rparr>
     = (Inr (configure (VideoCapture example_camera 0 2)), \<lparr>calls = 3, sleeps = 2\<rparr>)
   \<and> cap_opened (configure (VideoCapture example_camera 0 2))
   \<and> initialize_camera example_camera 1 (Some 3) \<lparr>calls = 0, sleeps = 0\<rparr>
     = (Inl (SystemExit 1), \<lparr>calls = 3, sleeps = 3\<rparr>)"
proof -
  let ?s = "\<lparr>calls = 0, sleeps = 0\<rparr>"
  note t1 = initialize_camera_bounded[of ?s example_camera 0 None]
  from t1 have "\<forall>k < retries None.
         example_camera 0 (calls ?s + k) \<and> (\<forall>j<k. \<not> example_camera 0 (calls ?s + j)) \<longrightarrow>
           initialize_camera example_camera 0 None ?s
             = (Inr (configure (VideoCapture example_camera 0 (calls ?s + k))),
                ?s\<lparr>calls := calls ?s + k + 1, sleeps := sleeps ?s + k\<rparr>)
           \<and> cap_opened (configure (VideoCapture example_camera 0 (calls ?s + k)))"
    by blast
  then have "2 < retries None \<longrightarrow>
         example_camera 0 (calls ?s + 2) \<and> (\<forall>j<2. \<not> example_camera 0 (calls ?s + j)) \<longrightarrow>
           initialize_camera example_camera 0 None ?s
             = (Inr (configure (VideoCapture example_camera 0 (calls ?s + 2))),
                ?s\<lparr>calls := calls ?s + 2 + 1, sleeps := sleeps ?s + 2\<rparr>)
           \<and> cap_opened (configure (VideoCapture example_camera 0 (calls ?s + 2)))"
    by (rule allE[where x = 2]) simp
  then have a: "initialize_camera example_camera 0 None ?s
     = (Inr (configure (VideoCapture example_camera 0 2)), \<lparr>calls = 3, sleeps = 2\<rparr>)
   \<and> cap_opened (configure (VideoCapture example_camera 0 2))"
    by (simp add: retries_def example_camera_def numeral_2_eq_2 numeral_3_eq_3)
  note t2 = initialize_camera_bounded[of ?s example_camera 1 "Some 3"]
  from t2 have "(\<forall>k < retries (Some 3). \<not> example_camera 1 (calls ?s + k)) \<longrightarrow>
         initialize_camera example_camera 1 (Some 3) ?s
           = (Inl (SystemExit 1),
              ?s\<lparr>calls := calls ?s + retries (Some 3),
                sleeps := sleeps ?s + retries (Some 3)\<rparr>)"
    by blast
  then have b: "initialize_camera example_camera 1 (Some 3) ?s
     = (Inl (SystemExit 1), \<lparr>calls = 3, sleeps = 3\<rparr>)"
    by (simp add: retries_def example_camera_def numeral_2_eq_2 numeral_3_eq_3)
  from a b show ?thesis by blast
qed

subsection \<open>Loading a TensorRT engine\<close>

text \<open>
  A path that exists but cannot be read (a directory): the constructor raises the error
  of \<^verbatim>\<open>open\<close>, which is none of the three errors listed, and does not succeed.
\<close>

theorem trt_infer_init_unreadable_counterexample:
  "trt_infer_init example_trt ''engines'' None = Inl OSError"
  by (simp add: trt_infer_init_def example_trt_def)

text \<open>
  An engine without input binding, constructed without \<^verbatim>\<open>input_shape\<close>: the constructor
  reads the variable \<^verbatim>\<open>bs\<close> that no branch has assigned.
\<close>

lemma trt_infer_init_no_input_binding:
  "trt_infer_init example_trt ''model.trt'' None = Inl UnboundLocalError"
  by (simp add: trt_infer_init_def example_trt_def)

text \<open>
  C7 (amended): the constructor raises RuntimeError when the import failed,
  FileNotFoundError when the path does not exist, the error of reading the file when that
  raises, RuntimeError when the bytes do not deserialise, and the error of
  \<^verbatim>\<open>get_binding_shape\<close> when that raises on a binding; in every other case in which an
  \<^verbatim>\<open>input_shape\<close> is given or the engine has an input binding, construction succeeds
  and the object holds the path and the deserialised engine.
\<close>

theorem trt_infer_init_outcomes:
  "(\<not> trt_imported env \<longrightarrow> trt_infer_init env path sh = Inl RuntimeError)
   \<and> (trt_imported env \<and> \<not> path_exists env path \<longrightarrow>
        trt_infer_init env path sh = Inl FileNotFoundError)
   \<and> (trt_imported env \<and> path_exists env path \<and> read_file env path = Inl e \<longrightarrow>
        trt_infer_init env path sh = Inl e)
   \<and> (trt_imported env \<and> path_exists env path \<and> read_file env path = Inr bytes
        \<and> deserialize_cuda_engine env bytes = None \<longrightarrow>
        trt_infer_init env path sh = Inl RuntimeError)
   \<and> (trt_imported env \<and> path_exists env path \<and> read_file env path = Inr bytes
        \<and> deserialize_cuda_engine env bytes = Some eng \<and> first_shape_error eng = Some e' \<longrightarrow>
        trt_infer_init env path sh = Inl e')
   \<and> (trt_imported env \<and> path_exists env path \<and> read_file env path = Inr bytes
        \<and> deserialize_cuda_engine env bytes = Some eng \<and> first_shape_error eng = None
        \<and> (sh \<noteq> None \<or> find_input_binding eng \<noteq> None) \<longrightarrow>
        (\<exists>t. trt_infer_init env path sh = Inr t \<and> engine_path t = path \<and> engine t = eng
              \<and> input_binding t = map_option fst (find_input_binding eng)))"
proof (intro conjI impI)
  assume "trt_imported env \<and> path_exists env path \<and> read_file env path = Inr bytes
        \<and> deserialize_cuda_engine env bytes = Some eng \<and> first_shape_error eng = None
        \<and> (sh \<noteq> None \<or> find_input_binding eng \<noteq> None)"
  then show "\<exists>t. trt_infer_init env path sh = Inr t \<and> engine_path t = path \<and> engine t = eng
              \<and> input_binding t = map_option fst (find_input_binding eng)"
    by (cases sh; cases "find_input_binding eng")
       (auto simp: trt_infer_init_def Let_def split: option.splits prod.splits)
qed (simp_all add: trt_infer_init_def)

theorem trt_infer_init_outcomes_witness:
  "trt_imported example_trt \<and> path_exists example_trt ''face.trt''
   \<and> read_file example_trt ''face.trt'' = Inr [2]
   \<and> (\<exists>t. trt_infer_init example_trt ''face.trt'' None = Inr t \<and> engine_path t = ''face.trt''
          \<and> input_binding t = Some ''image'')
   \<and> trt_infer_init example_trt ''missing.trt'' None = Inl FileNotFoundError"
proof -
  let ?eng = "[\<lparr> binding_name = ''image'', binding_is_input = True,
                  binding_shape = Inr [1, 3, 128, 128] \<rparr>,
               \<lparr> binding_name = ''embedding'', binding_is_input = False,
                  binding_shape = Inr [1, 64] \<rparr>]"
  have a: "trt_imported example_trt" by (simp add: example_trt_def)
  have b: "path_exists example_trt ''face.trt''" by (simp add: example_trt_def)
  have c: "read_file example_trt ''face.trt'' = Inr [2]" by (simp add: example_trt_def)
  have d: "deserialize_cuda_engine example_trt [2] = Some ?eng" by (simp add: example_trt_def)
  have e: "first_shape_error ?eng = None" by simp
  have f: "find_input_binding ?eng = Some (''image'', Some [1, 3, 128, 128])" by simp
  note t = trt_infer_init_outcomes[of example_trt "''face.trt''" None OSError "[2]" ?eng OSError]
  from t a b c d e f
  have "\<exists>t. trt_infer_init example_trt ''face.trt'' None = Inr t \<and> engine_path t = ''face.trt''
          \<and> engine t = ?eng
          \<and> input_binding t = map_option fst (find_input_binding ?eng)"
    by simp
  then obtain t0 where "trt_infer_init example_trt ''face.trt'' None = Inr t0"
    "engine_path t0 = ''face.trt''"
    "input_binding t0 = map_option fst (find_input_binding ?eng)"
    by blast
  then have g: "\<exists>t. trt_infer_init example_trt ''face.trt'' None = Inr t
          \<and> engine_path t = ''face.trt'' \<and> input_binding t = Some ''image''"
    by (intro exI[of _ t0]) (simp add: f)
  have nx: "\<not> path_exists example_trt ''missing.trt''" by (simp add: example_trt_def)
  note t' = trt_infer_init_outcomes[of example_trt "''missing.trt''" None OSError "[]" "[]" OSError]
  from t' a nx have h: "trt_infer_init example_trt ''missing.trt'' None = Inl FileNotFoundError"
    by blast
  from a b c g h show ?thesis by blast
qed

subsection \<open>Indexing reference images\<close>

lemma occurs_in_iff: "occurs_in pat s \<longleftrightarrow> (\<exists>a b. s = a @ pat @ b)"
proof (induction s)
  case Nil
  then show ?case by auto
next
  case (Cons c cs)
  show ?case
  proof
    assume "occurs_in pat (c # cs)"
    then consider "prefix pat (c # cs)" | "occurs_in pat cs" by auto
    then show "\<exists>a b. c # cs = a @ pat @ b"
    proof cases
      case 1
      then obtain b where "c # cs = pat @ b" by (auto simp: prefix_def)
      then have "c # cs = [] @ pat @ b" by simp
      then show ?thesis by blast
    next
      case 2
      with Cons.IH obtain a b where "cs = a @ pat @ b" by blast
      then have "c # cs = (c # a) @ pat @ b" by simp
      then show ?thesis by blast
    qed
  next
    assume "\<exists>a b. c # cs = a @ pat @ b"
    then obtain a b where ab: "c # cs = a @ pat @ b" by blast
    show "occurs_in pat (c # cs)"
    proof (cases a)
      case Nil
      with ab have "prefix pat (c # cs)" by (simp add: prefix_def)
      then show ?thesis by simp
    next
      case (Cons x a')
      with ab have "cs = a' @ pat @ b" by simp
      with Cons.IH have "occurs_in pat cs" by blast
      then show ?thesis by simp
    qed
  qed
qed

lemma before_first_split:
  "occurs_in pat s \<Longrightarrow> \<exists>b. s = before_first pat s @ pat @ b"
proof (induction s)
  case Nil
  then show ?case by simp
next
  case (Cons c cs)
  show ?case
  proof (cases "prefix pat (c # cs)")
    case True
    then obtain b where b: "c # cs = pat @ b" by (auto simp: prefix_def)
    from True have "before_first pat (c # cs) = []" by simp
    then have "c # cs = before_first pat (c # cs) @ pat @ b"
      using b by simp
    then show ?thesis ..
  next
    case False
    with Cons.prems have "occurs_in pat cs" by simp
    with Cons.IH obtain b where "cs = before_first pat cs @ pat @ b" by blast
    then have "c # cs = (c # before_first pat cs) @ pat @ b" by simp
    with False show ?thesis by auto
  qed
qed

lemma before_first_least:
  "s = a @ pat @ b \<Longrightarrow> length (before_first pat s) \<le> length a"
proof (induction s arbitrary: a)
  case Nil
  then show ?case by simp
next
  case (Cons c cs)
  show ?case
  proof (cases "prefix pat (c # cs)")
    case True
    then show ?thesis by simp
  next
    case False
    have "a \<noteq> []"
    proof
      assume "a = []"
      with Cons.prems have "prefix pat (c # cs)" by (simp add: prefix_def)
      with False show False ..
    qed
    then obtain x a' where a: "a = x # a'" by (cases a) auto
    with Cons.prems have "cs = a' @ pat @ b" by simp
    from Cons.IH[OF this] False a show ?thesis by simp
  qed
qed

lemma rfind_from_absent: "c \<notin> set xs \<Longrightarrow> rfind_from c xs i best = best"
  by (induction xs arbitrary: i best) auto

lemma rfind_from_last:
  "c \<notin> set b \<Longrightarrow> rfind_from c (a @ c # b) i best = i + int (length a)"
proof (induction a arbitrary: i best)
  case Nil
  then show ?case by (simp add: rfind_from_absent)
next
  case (Cons x a)
  from Cons.IH[OF Cons.prems, of "i + 1" "if x = c then i else best"]
  show ?case by simp
qed

lemma py_rfind_absent: "c \<notin> set s \<Longrightarrow> py_rfind c s = - 1"
  by (simp add: py_rfind_def rfind_from_absent)

lemma py_rfind_last: "c \<notin> set b \<Longrightarrow> py_rfind c (a @ c # b) = int (length a)"
  by (simp add: py_rfind_def rfind_from_last)

lemma splitext_root_ext:
  assumes "CHR ''/'' \<notin> set (stem @ CHR ''.'' # ext)" and "CHR ''.'' \<notin> set ext"
  shows "splitext_root (stem @ CHR ''.'' # ext)
       = (if \<exists>c \<in> set stem. c \<noteq> CHR ''.'' then stem else stem @ CHR ''.'' # ext)"
proof -
  let ?p = "stem @ CHR ''.'' # ext"
  have sep: "py_rfind (CHR ''/'') ?p = - 1"
    using assms(1) by (rule py_rfind_absent)
  have dot: "py_rfind (CHR ''.'') ?p = int (length stem)"
    using assms(2) by (rule py_rfind_last)
  have sl: "py_slice 0 (int (length stem)) ?p = stem"
    by (simp add: py_slice_def Let_def)
  have "list_ex (\<lambda>c. c \<noteq> CHR ''.'') stem = (\<exists>c \<in> set stem. c \<noteq> CHR ''.'')"
    by (simp add: list_ex_iff)
  then show ?thesis
    by (simp add: splitext_root_def sep dot sl Let_def)
qed

lemma lower_char_dot [simp]: "lower_char (CHR ''.'') = CHR ''.''"
  by (simp add: lower_char_def)

lemma shifted_code_not_dot:
  assumes "(65 \<le> n \<and> n \<le> 90) \<or> (192 \<le> n \<and> n \<le> 222 \<and> n \<noteq> 215)"
  shows "(n + 32) mod 256 \<noteq> (46 :: nat)"
proof -
  from assms have lt: "n + 32 < 256" and big: "65 \<le> n" by linarith+
  from lt have "(n + 32) mod 256 = n + 32" by (rule mod_less)
  with big show ?thesis by linarith
qed

lemma lower_char_dot_only:
  assumes "lower_char c = CHR ''.''"
  shows "c = CHR ''.''"
proof (cases "(65 \<le> (of_char c :: nat) \<and> (of_char c :: nat) \<le> 90)
             \<or> (192 \<le> (of_char c :: nat) \<and> (of_char c :: nat) \<le> 222 \<and> (of_char c :: nat) \<noteq> 215)")
  case True
  then have "lower_char c = char_of ((of_char c :: nat) + 32)"
    unfolding lower_char_def Let_def by (rule if_P)
  with assms have "char_of ((of_char c :: nat) + 32) = CHR ''.''" by (simp only:)
  then have "(of_char (char_of ((of_char c :: nat) + 32) :: char) :: nat) = of_char (CHR ''.'')"
    by (simp only:)
  then have "((of_char c :: nat) + 32) mod 256 = 46" by simp
  with shifted_code_not_dot[OF True] show ?thesis by (rule notE)
next
  case False
  then have "lower_char c = c"
    unfolding lower_char_def Let_def by (rule if_not_P)
  with assms show ?thesis by (simp only:)
qed

lemma lower_suffix_dot:
  assumes "py_lower sfx = CHR ''.'' # ys" and "CHR ''.'' \<notin> set ys"
  shows "\<exists>ext. sfx = CHR ''.'' # ext \<and> CHR ''.'' \<notin> set ext"
proof -
  from assms(1) obtain a ext where s: "sfx = a # ext" and a: "lower_char a = CHR ''.''"
    and e: "map lower_char ext = ys"
    by (cases sfx) (auto simp: py_lower_def)
  from a have "a = CHR ''.''" by (rule lower_char_dot_only)
  moreover have "CHR ''.'' \<notin> set ext"
  proof
    assume "CHR ''.'' \<in> set ext"
    then have "lower_char (CHR ''.'') \<in> set (map lower_char ext)" by (simp only: set_map) blast
    with e assms(2) show False by simp
  qed
  ultimately show ?thesis using s by blast
qed

lemma image_suffix_dot:
  assumes "py_lower sfx \<in> {''.jpg'', ''.jpeg'', ''.png''}"
  shows "\<exists>ext. sfx = CHR ''.'' # ext \<and> CHR ''.'' \<notin> set ext"
proof -
  have j: "CHR ''.'' \<notin> set ''jpg''" and e: "CHR ''.'' \<notin> set ''jpeg''"
    and p: "CHR ''.'' \<notin> set ''png''"
    by simp_all
  from assms have "py_lower sfx = CHR ''.'' # ''jpg'' \<or> py_lower sfx = CHR ''.'' # ''jpeg''
      \<or> py_lower sfx = CHR ''.'' # ''png''"
    by (simp only: insert_iff empty_iff simp_thms)
  then show ?thesis
  proof (elim disjE)
    assume "py_lower sfx = CHR ''.'' # ''jpg''"
    then show ?thesis using j by (rule lower_suffix_dot)
  next
    assume "py_lower sfx = CHR ''.'' # ''jpeg''"
    then show ?thesis using e by (rule lower_suffix_dot)
  next
    assume "py_lower sfx = CHR ''.'' # ''png''"
    then show ?thesis using p by (rule lower_suffix_dot)
  qed
qed

lemma py_endswith_lower:
  "py_endswith (py_lower f) x \<longleftrightarrow> (\<exists>stem sfx. f = stem @ sfx \<and> py_lower sfx = x)"
proof
  assume "py_endswith (py_lower f) x"
  then have "suffix x (map lower_char f)"
    by (simp add: py_endswith_def py_lower_def suffix_to_prefix)
  then obtain zs where "map lower_char f = zs @ x" by (auto simp: suffix_def)
  then obtain us vs where "f = us @ vs" "map lower_char vs = x"
    by (auto simp: map_eq_append_conv)
  then show "\<exists>stem sfx. f = stem @ sfx \<and> py_lower sfx = x"
    by (auto simp: py_lower_def)
next
  assume "\<exists>stem sfx. f = stem @ sfx \<and> py_lower sfx = x"
  then obtain stem sfx where "f = stem @ sfx" "py_lower sfx = x" by blast
  then have "map lower_char f = map lower_char stem @ x" by (simp add: py_lower_def)
  then have "suffix x (map lower_char f)" by (simp add: suffix_def)
  then show "py_endswith (py_lower f) x"
    by (simp add: py_endswith_def py_lower_def suffix_to_prefix)
qed

lemma is_image_name_iff:
  "is_image_name f \<longleftrightarrow>
     (\<exists>stem sfx. f = stem @ sfx \<and> py_lower sfx \<in> {''.jpg'', ''.jpeg'', ''.png''})"
  unfolding is_image_name_def py_endswith_lower by blast

lemma person_id_no_pattern:
  assumes "\<not> occurs_in pattern f" and "is_image_name f" and "CHR ''/'' \<notin> set f"
  shows "\<exists>stem sfx. f = stem @ sfx \<and> py_lower sfx \<in> {''.jpg'', ''.jpeg'', ''.png''}
           \<and> person_id pattern f = (if \<exists>c \<in> set stem. c \<noteq> CHR ''.'' then stem else f)"
proof -
  from assms(2) obtain stem sfx where f: "f = stem @ sfx"
    and l: "py_lower sfx \<in> {''.jpg'', ''.jpeg'', ''.png''}"
    unfolding is_image_name_iff by blast
  from image_suffix_dot[OF l] obtain ext where sfx: "sfx = CHR ''.'' # ext"
    and nd: "CHR ''.'' \<notin> set ext" by blast
  have "CHR ''/'' \<notin> set (stem @ CHR ''.'' # ext)"
    using assms(3) f sfx by simp
  from splitext_root_ext[OF this nd]
  have "splitext_root f = (if \<exists>c \<in> set stem. c \<noteq> CHR ''.'' then stem else f)"
    using f sfx by simp
  with assms(1) have "person_id pattern f = (if \<exists>c \<in> set stem. c \<noteq> CHR ''.'' then stem else f)"
    by (simp add: person_id_def)
  with f l show ?thesis by blast
qed

lemma map_of_dict_append:
  "map_of (dict_append d k v) = (map_of d)(k \<mapsto> (case map_of d k of None \<Rightarrow> [v] | Some vs \<Rightarrow> vs @ [v]))"
  by (induction d) (auto simp: fun_eq_iff)

lemma dict_append_keys: "fst ` set (dict_append d k v) = insert k (fst ` set d)"
proof (induction d)
  case Nil
  then show ?case by simp
next
  case (Cons a d)
  obtain k' vs where a: "a = (k', vs)" by (cases a)
  show ?case
  proof (cases "k' = k")
    case True
    then show ?thesis by (simp add: a)
  next
    case False
    then have "fst ` set (dict_append (a # d) k v) = insert k' (fst ` set (dict_append d k v))"
      by (simp add: a)
    also have "\<dots> = insert k' (insert k (fst ` set d))"
      by (simp only: Cons.IH)
    finally show ?thesis by (simp add: a insert_commute)
  qed
qed

lemma dict_append_distinct:
  assumes "distinct (map fst d)"
  shows "distinct (map fst (dict_append d k v))"
  using assms
proof (induction d)
  case Nil
  then show ?case by simp
next
  case (Cons a d)
  obtain k' vs where a: "a = (k', vs)" by (cases a)
  from Cons.prems a have fresh: "k' \<notin> fst ` set d" and dd: "distinct (map fst d)"
    by auto
  show ?case
  proof (cases "k' = k")
    case True
    with fresh dd a show ?thesis by simp
  next
    case False
    have "k' \<notin> fst ` set (dict_append d k v)"
      using fresh False by (simp add: dict_append_keys)
    moreover have "distinct (map fst (dict_append d k v))"
      using dd by (rule Cons.IH)
    ultimately show ?thesis
      using False a by simp
  qed
qed

lemma merge_entry_step:
  "merge_entry (((map_of d)(k \<mapsto> (case map_of d k of None \<Rightarrow> [v] | Some vs \<Rightarrow> vs @ [v]))) pid) new
     = merge_entry (map_of d pid) (if pid = k then v # new else new)"
  by (simp add: merge_entry_def split: option.splits)

lemma index_loop_step:
  assumes "pattern \<noteq> []"
  shows "index_loop dir pattern (f # names) d
       = (if is_image_name f
          then index_loop dir pattern names
                 (dict_append d (person_id pattern f) (path_join dir f))
          else index_loop dir pattern names d)"
proof -
  have "person_id_of pattern f = Inr (person_id pattern f)"
    using assms by (simp add: person_id_of_def person_id_def py_split_head_def)
  then show ?thesis by simp
qed

lemma files_of_Cons:
  "files_of pattern pid (f # names)
     = (if is_image_name f \<and> person_id pattern f = pid then f # files_of pattern pid names
        else files_of pattern pid names)"
  by (simp add: files_of_def)

lemma index_loop_total:
  assumes "pattern \<noteq> []"
  shows "\<exists>d'. index_loop dir pattern names d = Inr d'"
proof (induction names arbitrary: d)
  case Nil
  show ?case by simp
next
  case (Cons f names)
  show ?case
  proof (cases "is_image_name f")
    case True
    with Cons.IH[of "dict_append d (person_id pattern f) (path_join dir f)"]
    show ?thesis by (simp only: index_loop_step[OF assms] if_True)
  next
    case False
    with Cons.IH[of d] show ?thesis by (simp only: index_loop_step[OF assms] if_False)
  qed
qed

lemma index_loop_distinct:
  assumes "pattern \<noteq> []"
  shows "index_loop dir pattern names d = Inr d' \<Longrightarrow> distinct (map fst d) \<Longrightarrow>
           distinct (map fst d')"
proof (induction names arbitrary: d)
  case Nil
  then show ?case by simp
next
  case (Cons f names)
  show ?case
  proof (cases "is_image_name f")
    case True
    let ?d1 = "dict_append d (person_id pattern f) (path_join dir f)"
    from Cons.prems(1) True have r: "index_loop dir pattern names ?d1 = Inr d'"
      by (simp only: index_loop_step[OF assms] if_True)
    have "distinct (map fst ?d1)"
      using Cons.prems(2) by (rule dict_append_distinct)
    with r show ?thesis by (rule Cons.IH)
  next
    case False
    with Cons.prems(1) have "index_loop dir pattern names d = Inr d'"
      by (simp only: index_loop_step[OF assms] if_False)
    then show ?thesis using Cons.prems(2) by (rule Cons.IH)
  qed
qed

lemma index_loop_entries:
  assumes "pattern \<noteq> []"
  shows "index_loop dir pattern names d = Inr d' \<Longrightarrow>
           map_of d' pid
             = merge_entry (map_of d pid) (map (path_join dir) (files_of pattern pid names))"
proof (induction names arbitrary: d)
  case Nil
  then show ?case by (simp add: files_of_def merge_entry_def split: option.splits)
next
  case (Cons f names)
  show ?case
  proof (cases "is_image_name f")
    case False
    with Cons.prems have r: "index_loop dir pattern names d = Inr d'"
      by (simp only: index_loop_step[OF assms] if_False)
    from False have "files_of pattern pid (f # names) = files_of pattern pid names"
      by (simp add: files_of_Cons)
    with Cons.IH[OF r] show ?thesis by simp
  next
    case True
    let ?k = "person_id pattern f"
    let ?v = "path_join dir f"
    let ?d1 = "dict_append d ?k ?v"
    let ?new = "map (path_join dir) (files_of pattern pid names)"
    from Cons.prems True have r: "index_loop dir pattern names ?d1 = Inr d'"
      by (simp only: index_loop_step[OF assms] if_True)
    have "map_of d' pid = merge_entry (map_of ?d1 pid) ?new"
      using r by (rule Cons.IH)
    also have "\<dots> = merge_entry (map_of d pid) (if pid = ?k then ?v # ?new else ?new)"
      unfolding map_of_dict_append by (rule merge_entry_step)
    also have "(if pid = ?k then ?v # ?new else ?new)
        = map (path_join dir) (files_of pattern pid (f # names))"
      using True by (simp add: files_of_Cons)
    finally show ?thesis .
  qed
qed

text \<open>
  A file named \<^verbatim>\<open>.jpg\<close> is indexed, since its lower-cased name ends with \<^verbatim>\<open>.jpg\<close>; it
  holds no separator, and its person id is the whole name, extension included.
\<close>

theorem index_images_dotfile_counterexample:
  "index_images_by_person example_fs ''dots'' ''__'' = Inr [(''.jpg'', [''dots/.jpg''])]"
  by (simp add: index_images_by_person_def example_fs_def is_image_name_def py_endswith_def
        py_lower_def lower_char_def person_id_of_def splitext_root_def py_rfind_def
        py_slice_def path_join_def)

text \<open>
  C5 (amended): for a non-empty separator pattern, \<^verbatim>\<open>index_images_by_person\<close> returns the
  empty mapping for a directory that does not exist. For a directory with the listing
  \<open>names\<close> it returns a mapping with distinct keys that maps every person id to the paths
  of exactly those listed files, in listing order, whose lower-cased name ends with
  \<^verbatim>\<open>.jpg\<close>, \<^verbatim>\<open>.jpeg\<close> or \<^verbatim>\<open>.png\<close> and whose person id it is, and holds no other key.
  The person id of a file name is the part before the first occurrence of the pattern
  when the pattern occurs in it; otherwise, for an indexed name without \<^verbatim>\<open>/\<close>, it is the
  name without its extension if a character other than a dot precedes the extension, and
  the whole name if nothing but dots does.
\<close>

theorem index_images_by_person_spec:
  assumes "pattern \<noteq> []"
  shows "(\<not> fs_exists fs dir \<longrightarrow> index_images_by_person fs dir pattern = Inr [])
       \<and> (fs_exists fs dir \<and> fs_listdir fs dir = Inr names \<longrightarrow>
            (\<exists>d. index_images_by_person fs dir pattern = Inr d
               \<and> distinct (map fst d)
               \<and> (\<forall>pid. map_of d pid
                     = (if files_of pattern pid names = [] then None
                        else Some (map (path_join dir) (files_of pattern pid names))))))
       \<and> (files_of pattern pid names
            = filter (\<lambda>f. is_image_name f \<and> person_id pattern f = pid) names)
       \<and> (is_image_name f \<longleftrightarrow>
            (\<exists>stem sfx. f = stem @ sfx \<and> py_lower sfx \<in> {''.jpg'', ''.jpeg'', ''.png''}))
       \<and> (occurs_in pattern f \<longleftrightarrow> (\<exists>a b. f = a @ pattern @ b))
       \<and> (occurs_in pattern f \<longrightarrow>
            (\<exists>b. f = person_id pattern f @ pattern @ b)
            \<and> (\<forall>a b. f = a @ pattern @ b \<longrightarrow> length (person_id pattern f) \<le> length a))
       \<and> (\<not> occurs_in pattern f \<and> is_image_name f \<and> CHR ''/'' \<notin> set f \<longrightarrow>
            (\<exists>stem sfx. f = stem @ sfx \<and> py_lower sfx \<in> {''.jpg'', ''.jpeg'', ''.png''}
               \<and> person_id pattern f = (if \<exists>c \<in> set stem. c \<noteq> CHR ''.'' then stem else f)))"
proof (intro conjI impI)
  assume "\<not> fs_exists fs dir"
  then show "index_images_by_person fs dir pattern = Inr []"
    by (simp add: index_images_by_person_def)
next
  assume a: "fs_exists fs dir \<and> fs_listdir fs dir = Inr names"
  from index_loop_total[OF assms, of dir names "[]"] obtain d where
    r: "index_loop dir pattern names [] = Inr d" ..
  have run: "index_images_by_person fs dir pattern = Inr d"
    using a r by (simp add: index_images_by_person_def)
  have dd: "distinct (map fst d)"
    using index_loop_distinct[OF assms r] by simp
  have m: "map_of d pid
             = (if files_of pattern pid names = [] then None
                else Some (map (path_join dir) (files_of pattern pid names)))" for pid
    using index_loop_entries[OF assms r, of pid] by (simp add: merge_entry_def)
  from run dd m show "\<exists>d. index_images_by_person fs dir pattern = Inr d
               \<and> distinct (map fst d)
               \<and> (\<forall>pid. map_of d pid
                     = (if files_of pattern pid names = [] then None
                        else Some (map (path_join dir) (files_of pattern pid names))))"
    by blast
next
  show "files_of pattern pid names
            = filter (\<lambda>f. is_image_name f \<and> person_id pattern f = pid) names"
    by (simp add: files_of_def)
next
  show "is_image_name f \<longleftrightarrow>
            (\<exists>stem sfx. f = stem @ sfx \<and> py_lower sfx \<in> {''.jpg'', ''.jpeg'', ''.png''})"
    by (rule is_image_name_iff)
next
  show "occurs_in pattern f \<longleftrightarrow> (\<exists>a b. f = a @ pattern @ b)"
    by (rule occurs_in_iff)
next
  assume "occurs_in pattern f"
  then have pid: "person_id pattern f = before_first pattern f"
    by (simp add: person_id_def)
  from \<open>occurs_in pattern f\<close> show "\<exists>b. f = person_id pattern f @ pattern @ b"
    unfolding pid by (rule before_first_split)
  show "\<forall>a b. f = a @ pattern @ b \<longrightarrow> length (person_id pattern f) \<le> length a"
    unfolding pid using before_first_least by blast
next
  assume "\<not> occurs_in pattern f \<and> is_image_name f \<and> CHR ''/'' \<notin> set f"
  then have "\<not> occurs_in pattern f" "is_image_name f" "CHR ''/'' \<notin> set f" by simp_all
  then show "\<exists>stem sfx. f = stem @ sfx \<and> py_lower sfx \<in> {''.jpg'', ''.jpeg'', ''.png''}
               \<and> person_id pattern f = (if \<exists>c \<in> set stem. c \<noteq> CHR ''.'' then stem else f)"
    by (rule person_id_no_pattern)
qed

theorem index_images_by_person_spec_witness:
  "''__'' \<noteq> []
   \<and> fs_exists example_fs ''ref''
   \<and> fs_listdir example_fs ''ref''
        = Inr [''alice__1.jpg'', ''bob.PNG'', ''notes.txt'', ''alice__2.JPEG'']
   \<and> (\<exists>d. index_images_by_person example_fs ''ref'' ''__'' = Inr d
          \<and> distinct (map fst d)
          \<and> map_of d ''alice'' = Some [''ref/alice__1.jpg'', ''ref/alice__2.JPEG'']
          \<and> map_of d ''bob'' = Some [''ref/bob.PNG'']
          \<and> map_of d ''notes'' = None)
   \<and> index_images_by_person example_fs ''nowhere'' ''__'' = Inr []"
proof -
  let ?names = "[''alice__1.jpg'', ''bob.PNG'', ''notes.txt'', ''alice__2.JPEG'']"
  have h: "''__'' \<noteq> []" by simp
  have ex: "fs_exists example_fs ''ref''" by (simp add: example_fs_def)
  have ls: "fs_listdir example_fs ''ref'' = Inr ?names" by (simp add: example_fs_def)
  have nx: "\<not> fs_exists example_fs ''nowhere''" by (simp add: example_fs_def)
  have i1: "is_image_name ''alice__1.jpg''"
    by (simp add: is_image_name_def py_endswith_def py_lower_def lower_char_def)
  have i2: "is_image_name ''bob.PNG''"
    by code_simp
  have i3: "\<not> is_image_name ''notes.txt''"
    by (simp add: is_image_name_def py_endswith_def py_lower_def lower_char_def)
  have i4: "is_image_name ''alice__2.JPEG''"
    by code_simp
  have p1: "person_id ''__'' ''alice__1.jpg'' = ''alice''"
    by (simp add: person_id_def)
  have p2: "person_id ''__'' ''bob.PNG'' = ''bob''"
    by (simp add: person_id_def splitext_root_def py_rfind_def py_slice_def)
  have p4: "person_id ''__'' ''alice__2.JPEG'' = ''alice''"
    by (simp add: person_id_def)
  have fa: "files_of ''__'' ''alice'' ?names = [''alice__1.jpg'', ''alice__2.JPEG'']"
    by (simp add: files_of_def i1 i2 i3 i4 p1 p2 p4)
  have fb: "files_of ''__'' ''bob'' ?names = [''bob.PNG'']"
    by (simp add: files_of_def i1 i2 i3 i4 p1 p2 p4)
  have fn: "files_of ''__'' ''notes'' ?names = []"
    by (simp add: files_of_def i1 i2 i3 i4 p1 p2 p4)
  have ja: "map (path_join ''ref'') [''alice__1.jpg'', ''alice__2.JPEG'']
      = [''ref/alice__1.jpg'', ''ref/alice__2.JPEG'']"
    by (simp add: path_join_def py_endswith_def)
  have jb: "map (path_join ''ref'') [''bob.PNG''] = [''ref/bob.PNG'']"
    by (simp add: path_join_def py_endswith_def)
  note t = index_images_by_person_spec[OF h, of example_fs "''ref''" ?names "''alice''" "''alice__1.jpg''"]
  from t have "fs_exists example_fs ''ref'' \<and> fs_listdir example_fs ''ref'' = Inr ?names \<longrightarrow>
            (\<exists>d. index_images_by_person example_fs ''ref'' ''__'' = Inr d
               \<and> distinct (map fst d)
               \<and> (\<forall>pid. map_of d pid
                     = (if files_of ''__'' pid ?names = [] then None
                        else Some (map (path_join ''ref'') (files_of ''__'' pid ?names)))))"
    by (rule conjunct2[THEN conjunct1])
  with ex ls obtain d where r: "index_images_by_person example_fs ''ref'' ''__'' = Inr d"
    and dd: "distinct (map fst d)"
    and m: "\<And>pid. map_of d pid
                     = (if files_of ''__'' pid ?names = [] then None
                        else Some (map (path_join ''ref'') (files_of ''__'' pid ?names)))"
    by blast
  have ma: "map_of d ''alice'' = Some [''ref/alice__1.jpg'', ''ref/alice__2.JPEG'']"
    using m[of "''alice''"] by (simp only: fa ja) simp
  have mb: "map_of d ''bob'' = Some [''ref/bob.PNG'']"
    using m[of "''bob''"] by (simp only: fb jb) simp
  have mn: "map_of d ''notes'' = None"
    using m[of "''notes''"] by (simp only: fn) simp
  from r dd ma mb mn have e: "\<exists>d. index_images_by_person example_fs ''ref'' ''__'' = Inr d
          \<and> distinct (map fst d)
          \<and> map_of d ''alice'' = Some [''ref/alice__1.jpg'', ''ref/alice__2.JPEG'']
          \<and> map_of d ''bob'' = Some [''ref/bob.PNG'']
          \<and> map_of d ''notes'' = None"
    by (intro exI[of _ d] conjI)
  note t' = index_images_by_person_spec[OF h, of example_fs "''nowhere''" "[]" "''alice''" "''alice__1.jpg''"]
  from t' have "\<not> fs_exists example_fs ''nowhere'' \<longrightarrow>
      index_images_by_person example_fs ''nowhere'' ''__'' = Inr []"
    by (rule conjunct1)
  with nx have z: "index_images_by_person example_fs ''nowhere'' ''__'' = Inr []"
    by (rule rev_mp)
  show ?thesis
    by (intro conjI) (rule h, rule ex, rule ls, rule e, rule z)
qed

subsection \<open>Capturing one image\<close>

lemma capture_loop_skip:
  assumes "\<forall>i<j. w_clock w (t + i) - start < timeout \<and> w_read w (r + i) = None"
  shows "capture_loop w interactive start timeout t r k frame
       = capture_loop w interactive start timeout (t + j) (r + j) k frame"
  using assms
proof (induction j arbitrary: t r)
  case 0
  then show ?case by simp
next
  case (Suc j)
  from Suc.prems have h0: "w_clock w t - start < timeout" "w_read w r = None"
    by force+
  have step: "capture_loop w interactive start timeout t r k frame
       = capture_loop w interactive start timeout (t + 1) (r + 1) k frame"
    by (subst capture_loop.simps) (simp add: h0)
  have "\<forall>i<j. w_clock w (t + 1 + i) - start < timeout \<and> w_read w (r + 1 + i) = None"
  proof (intro allI impI)
    fix i assume "i < j"
    then have "Suc i < Suc j" by simp
    with Suc.prems have "w_clock w (t + Suc i) - start < timeout \<and> w_read w (r + Suc i) = None"
      by blast
    then show "w_clock w (t + 1 + i) - start < timeout \<and> w_read w (r + 1 + i) = None"
      by simp
  qed
  from Suc.IH[OF this] step show ?case by simp
qed

lemma capture_loop_first_frame:
  assumes "first_frame w timeout j frame"
  shows "capture_loop w False (w_clock w 0) timeout 1 0 0 None = Some (Inr (Some frame))"
proof -
  from assms have early: "\<forall>i<j. w_clock w (1 + i) - w_clock w 0 < timeout \<and> w_read w (0 + i) = None"
    and now: "w_clock w (Suc j) - w_clock w 0 < timeout" and rd: "w_read w j = Some frame"
    by (simp_all add: first_frame_def in_time_def list_all_iff)
  have "capture_loop w False (w_clock w 0) timeout 1 0 0 None
      = capture_loop w False (w_clock w 0) timeout (1 + j) (0 + j) 0 None"
    using early by (rule capture_loop_skip)
  also have "\<dots> = Some (Inr (Some frame))"
    by (subst capture_loop.simps) (simp add: now rd)
  finally show ?thesis .
qed

lemma capture_loop_times_out:
  assumes "times_out w timeout j"
  shows "capture_loop w False (w_clock w 0) timeout 1 0 0 None = Some (Inr None)"
proof -
  from assms have early: "\<forall>i<j. w_clock w (1 + i) - w_clock w 0 < timeout \<and> w_read w (0 + i) = None"
    and now: "\<not> w_clock w (Suc j) - w_clock w 0 < timeout"
    by (simp_all add: times_out_def in_time_def list_all_iff)
  have "capture_loop w False (w_clock w 0) timeout 1 0 0 None
      = capture_loop w False (w_clock w 0) timeout (1 + j) (0 + j) 0 None"
    using early by (rule capture_loop_skip)
  also have "\<dots> = Some (Inr None)"
    by (subst capture_loop.simps) (simp add: now)
  finally show ?thesis .
qed

lemma capture_outcome_exists:
  assumes "\<not> in_time w timeout n"
  shows "\<exists>j. times_out w timeout j \<or> (\<exists>frame. first_frame w timeout j frame)"
proof -
  define P where "P j = (\<not> in_time w timeout j \<or> w_read w j \<noteq> None)" for j
  from assms have "P n" by (simp add: P_def)
  define j where "j = (LEAST j. P j)"
  have Pj: "P j" unfolding j_def using \<open>P n\<close> by (rule LeastI)
  have before: "\<not> P i" if "i < j" for i
    using that unfolding j_def by (rule not_less_Least)
  then have early: "list_all (\<lambda>i. in_time w timeout i \<and> w_read w i = None) [0..<j]"
    by (simp add: list_all_iff P_def)
  show ?thesis
  proof (cases "in_time w timeout j")
    case False
    with early have "times_out w timeout j" by (simp add: times_out_def)
    then show ?thesis by blast
  next
    case True
    with Pj obtain frame where "w_read w j = Some frame" by (auto simp: P_def)
    with True early have "first_frame w timeout j frame" by (simp add: first_frame_def)
    then show ?thesis by blast
  qed
qed

lemma capture_image_local_not_opened:
  assumes "\<not> w_camera w idx 0"
  shows "capture_image_local w fn idx timeout interactive files
       = Some (Inl (PyException ''Could not open webcam''), files)"
  using assms by (simp add: capture_image_local_def VideoCapture_def)

lemma capture_image_local_timeout:
  assumes "w_camera w idx 0" and "times_out w timeout j"
  shows "capture_image_local w fn idx timeout False files
       = Some (Inl (PyException ''Capture failed: no frame received from webcam''), files)"
  using assms(1) capture_loop_times_out[OF assms(2)]
  by (simp add: capture_image_local_def VideoCapture_def)

lemma capture_image_local_frame:
  assumes "w_camera w idx 0" and "first_frame w timeout j frame"
  shows "capture_image_local w fn idx timeout False files
       = (case w_imwrite w fn frame of
            Inl e \<Rightarrow> Some (Inl e, files)
          | Inr written \<Rightarrow> Some (Inr fn, if written then files(fn \<mapsto> frame) else files))"
  using assms(1) capture_loop_first_frame[OF assms(2)]
  by (simp add: capture_image_local_def VideoCapture_def)

text \<open>
  The camera opens and the second read delivers a frame within the timeout, yet the call
  raises: \<^verbatim>\<open>cv2.imwrite\<close> has no writer for the file name \<^verbatim>\<open>photo\<close>.
\<close>

theorem capture_image_imwrite_counterexample:
  "capture_image_local example_world ''photo'' 0 5 False Map.empty = Some (Inl CvError, Map.empty)"
proof -
  have o: "w_camera example_world 0 0" by (simp add: example_world_def)
  have f: "first_frame example_world 5 1 [[[7, 8, 9]]]"
    by (simp add: first_frame_def in_time_def example_world_def)
  have i: "w_imwrite example_world ''photo'' [[[7, 8, 9]]] = Inl CvError"
    by (simp add: example_world_def py_endswith_def py_lower_def lower_char_def)
  from capture_image_local_frame[OF o f, of "''photo''" Map.empty] i show ?thesis by simp
qed

text \<open>
  C10 (amended): in the local, non-interactive path \<^verbatim>\<open>capture_image\<close> raises when the
  webcam does not open, when the timeout expires before any read delivers a frame, and
  when \<^verbatim>\<open>cv2.imwrite\<close> raises on the first frame delivered within the timeout; when
  \<^verbatim>\<open>cv2.imwrite\<close> does not raise on that frame, it returns exactly the file name it was
  given, and the file holds the frame if \<^verbatim>\<open>cv2.imwrite\<close> reports success. These cases
  cover every run in which the clock eventually passes the timeout, and every such run
  returns or raises.
\<close>

theorem capture_image_local_outcomes:
  "(\<not> w_camera w idx 0 \<longrightarrow>
      capture_image_local w fn idx timeout False files
        = Some (Inl (PyException ''Could not open webcam''), files))
   \<and> (w_camera w idx 0 \<and> times_out w timeout j \<longrightarrow>
      capture_image_local w fn idx timeout False files
        = Some (Inl (PyException ''Capture failed: no frame received from webcam''), files))
   \<and> (w_camera w idx 0 \<and> first_frame w timeout j frame \<and> w_imwrite w fn frame = Inl e \<longrightarrow>
      capture_image_local w fn idx timeout False files = Some (Inl e, files))
   \<and> (w_camera w idx 0 \<and> first_frame w timeout j frame \<and> w_imwrite w fn frame = Inr written \<longrightarrow>
      capture_image_local w fn idx timeout False files
        = Some (Inr fn, if written then files(fn \<mapsto> frame) else files))
   \<and> (\<not> in_time w timeout n \<longrightarrow>
      (\<exists>j. times_out w timeout j \<or> (\<exists>frame. first_frame w timeout j frame))
      \<and> (\<exists>res. capture_image_local w fn idx timeout False files = Some res))"
proof (intro conjI impI)
  assume "\<not> w_camera w idx 0"
  then show "capture_image_local w fn idx timeout False files
        = Some (Inl (PyException ''Could not open webcam''), files)"
    by (rule capture_image_local_not_opened)
next
  assume "w_camera w idx 0 \<and> times_out w timeout j"
  then have "w_camera w idx 0" "times_out w timeout j" by simp_all
  then show "capture_image_local w fn idx timeout False files
        = Some (Inl (PyException ''Capture failed: no frame received from webcam''), files)"
    by (rule capture_image_local_timeout)
next
  assume "w_camera w idx 0 \<and> first_frame w timeout j frame \<and> w_imwrite w fn frame = Inl e"
  then have a: "w_camera w idx 0" "first_frame w timeout j frame" and b: "w_imwrite w fn frame = Inl e"
    by simp_all
  from capture_image_local_frame[OF a, of fn files] b
  show "capture_image_local w fn idx timeout False files = Some (Inl e, files)" by simp
next
  assume "w_camera w idx 0 \<and> first_frame w timeout j frame \<and> w_imwrite w fn frame = Inr written"
  then have a: "w_camera w idx 0" "first_frame w timeout j frame"
    and b: "w_imwrite w fn frame = Inr written"
    by simp_all
  from capture_image_local_frame[OF a, of fn files] b
  show "capture_image_local w fn idx timeout False files
        = Some (Inr fn, if written then files(fn \<mapsto> frame) else files)" by simp
next
  assume n: "\<not> in_time w timeout n"
  then show "\<exists>j. times_out w timeout j \<or> (\<exists>frame. first_frame w timeout j frame)"
    by (rule capture_outcome_exists)
  from capture_outcome_exists[OF n] obtain j' where
    c: "times_out w timeout j' \<or> (\<exists>frame. first_frame w timeout j' frame)" ..
  show "\<exists>res. capture_image_local w fn idx timeout False files = Some res"
  proof (cases "w_camera w idx 0")
    case False
    then show ?thesis by (simp add: capture_image_local_not_opened)
  next
    case True
    from c show ?thesis
    proof
      assume "times_out w timeout j'"
      with True show ?thesis by (simp add: capture_image_local_timeout)
    next
      assume "\<exists>frame. first_frame w timeout j' frame"
      then obtain fr where "first_frame w timeout j' fr" ..
      from capture_image_local_frame[OF True this, of fn files] show ?thesis
        by (cases "w_imwrite w fn fr") simp_all
    qed
  qed
qed

theorem capture_image_local_outcomes_witness:
  "w_camera example_world 0 0
   \<and> first_frame example_world 5 1 [[[7, 8, 9]]]
   \<and> w_imwrite example_world ''photo.jpg'' [[[7, 8, 9]]] = Inr True
   \<and> capture_image_local example_world ''photo.jpg'' 0 5 False Map.empty
        = Some (Inr ''photo.jpg'', [''photo.jpg'' \<mapsto> [[[7, 8, 9]]]])
   \<and> times_out example_world 1 0
   \<and> capture_image_local example_world ''photo.jpg'' 0 1 False Map.empty
        = Some (Inl (PyException ''Capture failed: no frame received from webcam''), Map.empty)
   \<and> capture_image_local example_world ''photo.jpg'' 1 5 False Map.empty
        = Some (Inl (PyException ''Could not open webcam''), Map.empty)"
proof -
  have o: "w_camera example_world 0 0" by (simp add: example_world_def)
  have no: "\<not> w_camera example_world 1 0" by (simp add: example_world_def)
  have f: "first_frame example_world 5 1 [[[7, 8, 9]]]"
    by (simp add: first_frame_def in_time_def example_world_def)
  have to: "times_out example_world 1 0"
    by (simp add: times_out_def in_time_def example_world_def)
  have i: "w_imwrite example_world ''photo.jpg'' [[[7, 8, 9]]] = Inr True"
    by (simp add: example_world_def py_endswith_def py_lower_def lower_char_def)
  note t = capture_image_local_outcomes[of example_world 0 "''photo.jpg''" 5 Map.empty 1
      "[[[7, 8, 9]]]" CvError True 0]
  from t have "w_camera example_world 0 0 \<and> first_frame example_world 5 1 [[[7, 8, 9]]]
        \<and> w_imwrite example_world ''photo.jpg'' [[[7, 8, 9]]] = Inr True \<longrightarrow>
      capture_image_local example_world ''photo.jpg'' 0 5 False Map.empty
        = Some (Inr ''photo.jpg'',
                if True then Map.empty(''photo.jpg'' \<mapsto> [[[7, 8, 9]]]) else Map.empty)"
    by (rule conjunct2[THEN conjunct2, THEN conjunct2, THEN conjunct1])
  with o f i have a: "capture_image_local example_world ''photo.jpg'' 0 5 False Map.empty
        = Some (Inr ''photo.jpg'', [''photo.jpg'' \<mapsto> [[[7, 8, 9]]]])"
    by simp
  note t2 = capture_image_local_outcomes[of example_world 0 "''photo.jpg''" 1 Map.empty 0
      "[[[7, 8, 9]]]" CvError True 0]
  from t2 have "w_camera example_world 0 0 \<and> times_out example_world 1 0 \<longrightarrow>
      capture_image_local example_world ''photo.jpg'' 0 1 False Map.empty
        = Some (Inl (PyException ''Capture failed: no frame received from webcam''), Map.empty)"
    by (rule conjunct2[THEN conjunct1])
  with o to have b: "capture_image_local example_world ''photo.jpg'' 0 1 False Map.empty
        = Some (Inl (PyException ''Capture failed: no frame received from webcam''), Map.empty)"
    by simp
  note t3 = capture_image_local_outcomes[of example_world 1 "''photo.jpg''" 5 Map.empty 0
      "[[[7, 8, 9]]]" CvError True 0]
  from t3 have "\<not> w_camera example_world 1 0 \<longrightarrow>
      capture_image_local example_world ''photo.jpg'' 1 5 False Map.empty
        = Some (Inl (PyException ''Could not open webcam''), Map.empty)"
    by (rule conjunct1)
  with no have c: "capture_image_local example_world ''photo.jpg'' 1 5 False Map.empty
        = Some (Inl (PyException ''Could not open webcam''), Map.empty)"
    by simp
  show ?thesis
    by (intro conjI) (rule o, rule f, rule i, rule a, rule to, rule b, rule c)
qed

end
